theory Spec2Isabelle
  imports Main "HOL-Library.Sublist"
begin

section \<open>Python strings\<close>

text \<open>
  A Python \<open>str\<close> is modelled as a \<open>string\<close>, a list of characters. A character below
  128 is that ASCII character; a character from 128 on stands for some character outside
  ASCII. For ASCII characters the case conversions, the whitespace class of
  \<open>str.strip\<close>/\<open>str.split\<close> and of the regular expression \<open>\s\<close>, and the word class \<open>\w\<close>
  are written out below. \<open>lower_char\<close> and \<open>is_space\<close> treat a character outside ASCII as
  a character without case that is not whitespace. The safety gate does not: there, what
  Python's Unicode tables say of a character outside ASCII is a parameter (see
  \<open>unicode\<close> below).
\<close>

definition is_ascii :: "char \<Rightarrow> bool" where
  "is_ascii c = ((of_char c :: nat) < 128)"

definition is_lower_char :: "char \<Rightarrow> bool" where
  "is_lower_char c = (97 \<le> (of_char c :: nat) \<and> (of_char c :: nat) \<le> 122)"

definition is_upper_char :: "char \<Rightarrow> bool" where
  "is_upper_char c = (65 \<le> (of_char c :: nat) \<and> (of_char c :: nat) \<le> 90)"

definition is_digit_char :: "char \<Rightarrow> bool" where
  "is_digit_char c = (48 \<le> (of_char c :: nat) \<and> (of_char c :: nat) \<le> 57)"

definition upper_char :: "char \<Rightarrow> char" where
  "upper_char c = (if is_lower_char c then char_of ((of_char c :: nat) - 32) else c)"

definition lower_char :: "char \<Rightarrow> char" where
  "lower_char c = (if is_upper_char c then char_of ((of_char c :: nat) + 32) else c)"

text \<open>\<open>str.upper()\<close> on ASCII text, and \<open>str.lower()\<close>.\<close>

definition ascii_upper :: "string \<Rightarrow> string" where
  "ascii_upper s = map upper_char s"

definition py_lower :: "string \<Rightarrow> string" where
  "py_lower s = map lower_char s"

text \<open>The ASCII characters of the regular expression class \<open>\w\<close>: letters, digits and the underscore.\<close>

definition is_word_char :: "char \<Rightarrow> bool" where
  "is_word_char c = (is_lower_char c \<or> is_upper_char c \<or> is_digit_char c \<or> c = CHR ''_'')"

text \<open>
  Whitespace as \<open>str.isspace\<close> sees it on ASCII: tab, line feed, vertical tab, form
  feed, carriage return, the four separators 0x1C to 0x1F, and the space.
\<close>

definition is_space :: "char \<Rightarrow> bool" where
  "is_space c = ((of_char c :: nat) \<in> {9, 10, 11, 12, 13, 28, 29, 30, 31, 32})"

text \<open>\<open>str.strip()\<close>.\<close>

definition py_strip :: "string \<Rightarrow> string" where
  "py_strip s = rev (dropWhile is_space (rev (dropWhile is_space s)))"

text \<open>\<open>str.split()\<close> with no argument: the maximal runs of non-whitespace, in order.\<close>

fun split_ws :: "string \<Rightarrow> string \<Rightarrow> string list" where
  "split_ws cur [] = (if cur = [] then [] else [cur])"
| "split_ws cur (c # cs) =
     (if is_space c then (if cur = [] then split_ws [] cs else cur # split_ws [] cs)
      else split_ws (cur @ [c]) cs)"

definition py_split :: "string \<Rightarrow> string list" where
  "py_split s = split_ws [] s"

text \<open>The substring test \<open>sub in s\<close>.\<close>

fun contains :: "string \<Rightarrow> string \<Rightarrow> bool" where
  "contains sub [] = (sub = [])"
| "contains sub (c # cs) = (prefix sub (c # cs) \<or> contains sub cs)"

text \<open>\<open>str(n)\<close> of an integer: its decimal digits, with a leading minus sign.\<close>

definition digit_char :: "nat \<Rightarrow> char" where
  "digit_char d = char_of (d + 48)"

fun decimal :: "nat \<Rightarrow> string" where
  "decimal n = (if n < 10 then [digit_char n] else decimal (n div 10) @ [digit_char (n mod 10)])"

declare decimal.simps [simp del]

definition py_str_int :: "int \<Rightarrow> string" where
  "py_str_int i = (if 0 \<le> i then decimal (nat i) else CHR ''-'' # decimal (nat (- i)))"

section \<open>The safety gate of the query generator\<close>

text \<open>
  The gate upper-cases the query with \<open>str.upper\<close> and searches it with a regular
  expression whose \<open>\b\<close> follows the Unicode word class. What Python's Unicode tables say
  of the characters outside ASCII is taken as a parameter: \<open>uni_word c\<close> tells whether \<open>c\<close>
  is a word character (\<open>\w\<close>: alphanumeric, or the underscore), and \<open>uni_upper c\<close> is what
  \<open>str.upper\<close> turns \<open>c\<close> into, one character or several, ASCII or not.
\<close>

record unicode =
  uni_word :: "char \<Rightarrow> bool"
  uni_upper :: "char \<Rightarrow> string"

text \<open>The class \<open>\w\<close>, and \<open>str.upper()\<close>.\<close>

definition word_char :: "unicode \<Rightarrow> char \<Rightarrow> bool" where
  "word_char u c = (if is_ascii c then is_word_char c else uni_word u c)"

definition py_upper :: "unicode \<Rightarrow> string \<Rightarrow> string" where
  "py_upper u s = concat (map (\<lambda>c. if is_ascii c then [upper_char c] else uni_upper u c) s)"

text \<open>
  \<open>_safety_check\<close> runs \<open>re.search(rf"\b{keyword}\b", cypher_upper)\<close> for each keyword
  of the denylist. The assertion \<open>\b\<close> holds between two neighbouring positions when
  exactly one of them holds a word character, the positions before the start and after
  the end of the text counting as non-word. \<open>search_word\<close> is the search: it tries the
  pattern at every position from left to right, \<open>prev\<close> being the character before the
  position tried.
\<close>

fun opt_word :: "unicode \<Rightarrow> char option \<Rightarrow> bool" where
  "opt_word u None = False"
| "opt_word u (Some c) = word_char u c"

definition word_boundary :: "unicode \<Rightarrow> char option \<Rightarrow> char option \<Rightarrow> bool" where
  "word_boundary u a b = (opt_word u a \<noteq> opt_word u b)"

fun head_opt :: "string \<Rightarrow> char option" where
  "head_opt [] = None"
| "head_opt (c # cs) = Some c"

definition match_word_at :: "unicode \<Rightarrow> char option \<Rightarrow> string \<Rightarrow> string \<Rightarrow> bool" where
  "match_word_at u prev kw s =
     (word_boundary u prev (head_opt s) \<and> prefix kw s \<and>
      word_boundary u (if kw = [] then prev else Some (last kw)) (head_opt (drop (length kw) s)))"

fun search_word :: "unicode \<Rightarrow> char option \<Rightarrow> string \<Rightarrow> string \<Rightarrow> bool" where
  "search_word u prev kw [] = match_word_at u prev kw []"
| "search_word u prev kw (c # cs) =
     (match_word_at u prev kw (c # cs) \<or> search_word u (Some c) kw cs)"

definition re_search_word :: "unicode \<Rightarrow> string \<Rightarrow> string \<Rightarrow> bool" where
  "re_search_word u kw s = search_word u None kw s"

definition BLOCKED_CYPHER_KEYWORDS :: "string list" where
  "BLOCKED_CYPHER_KEYWORDS =
     [''DROP'', ''DELETE'', ''DETACH'', ''REMOVE'', ''SET'', ''CREATE'', ''MERGE'']"

text \<open>
  \<open>_safety_check\<close>: the message for the first keyword of the list that is found, or
  \<open>None\<close> when the query is safe to execute.
\<close>

definition safety_check :: "unicode \<Rightarrow> string \<Rightarrow> string option" where
  "safety_check u cypher =
     (let cypher_upper = py_upper u cypher in
      case find (\<lambda>keyword. re_search_word u keyword cypher_upper) BLOCKED_CYPHER_KEYWORDS of
        None \<Rightarrow> None
      | Some keyword \<Rightarrow>
          Some (''Blocked: Cypher contains write operation '' @ [CHR 0x27] @ keyword @ [CHR 0x27]))"

text \<open>
  What the specification says of the gate, in its own words. A text contains a keyword
  as a whole word when the keyword occurs in it with no word character directly before
  it and none directly after it; the match is case-insensitive, so the text looked at is
  the query in upper case.
\<close>

definition occurs_as_word :: "unicode \<Rightarrow> string \<Rightarrow> string \<Rightarrow> bool" where
  "occurs_as_word u kw s =
     (\<exists>pre post. s = pre @ kw @ post \<and>
        (pre = [] \<or> \<not> word_char u (last pre)) \<and>
        (post = [] \<or> \<not> word_char u (hd post)))"

definition blocked_word :: "unicode \<Rightarrow> string \<Rightarrow> bool" where
  "blocked_word u q = (\<exists>kw \<in> set BLOCKED_CYPHER_KEYWORDS. occurs_as_word u kw (py_upper u q))"

text \<open>
  The same for an ASCII query, read on the query as it is written: it has a part that
  is the keyword in some mix of upper and lower case, with no letter, digit or underscore
  directly before it and none directly after it.
\<close>

definition contains_whole_word :: "string \<Rightarrow> string \<Rightarrow> bool" where
  "contains_whole_word kw q =
     (\<exists>pre w post. q = pre @ w @ post \<and> ascii_upper w = kw \<and>
        (pre = [] \<or> \<not> is_word_char (last pre)) \<and>
        (post = [] \<or> \<not> is_word_char (hd post)))"


section \<open>Python values, exceptions and the outside world\<close>

text \<open>
  The values that cross the components are the ones JSON decoding and the graph store
  deliver: \<open>None\<close>, booleans, integers, strings, lists and dictionaries (an association
  list in insertion order). Floating-point numbers are not represented.
\<close>

datatype pyval =
    PNone
  | PBool bool
  | PInt int
  | PStr string
  | PList "pyval list"
  | PDict "(string \<times> pyval) list"

type_synonym row = "(string \<times> pyval) list"

text \<open>
  The exceptions the code tells apart: \<open>except TypeError\<close> in the executor, and every
  other subclass of \<open>Exception\<close>.
\<close>

datatype exn = TypeError | AttributeError | OtherError

text \<open>Truth value of a Python object, as \<open>not x\<close>, \<open>x or y\<close> and \<open>if x\<close> take it.\<close>

fun truthy :: "pyval \<Rightarrow> bool" where
  "truthy PNone = False"
| "truthy (PBool b) = b"
| "truthy (PInt i) = (i \<noteq> 0)"
| "truthy (PStr s) = (s \<noteq> [])"
| "truthy (PList xs) = (xs \<noteq> [])"
| "truthy (PDict kvs) = (kvs \<noteq> [])"

text \<open>\<open>d.get(key, default)\<close>.\<close>

definition dict_get :: "row \<Rightarrow> string \<Rightarrow> pyval \<Rightarrow> pyval" where
  "dict_get kvs k d = (case map_of kvs k of None \<Rightarrow> d | Some v \<Rightarrow> v)"

text \<open>\<open>v[:n]\<close>: strings and lists can be sliced, the other values raise.\<close>

definition getitem_slice :: "nat \<Rightarrow> pyval \<Rightarrow> exn + pyval" where
  "getitem_slice n v =
     (case v of
        PStr s \<Rightarrow> Inr (PStr (take n s))
      | PList xs \<Rightarrow> Inr (PList (take n xs))
      | _ \<Rightarrow> Inl TypeError)"

text \<open>
  The read queries of \<open>search_kg.py\<close>, each with its parameter, and a query text produced
  by the generator. The graph store answers a query with rows or raises.
\<close>

datatype query =
    KeywordQuery pyval
  | AuthorQuery pyval
  | InstitutionQuery pyval
  | TopicQuery pyval
  | MostCitedQuery int
  | StatisticsQuery
  | GeneratedQuery string

text \<open>One entry of \<open>thought_chain\<close> and one of \<open>all_observations\<close> in \<open>run\<close>.\<close>

record step =
  st_step :: nat
  st_thought :: pyval
  st_action :: pyval
  st_args :: pyval
  st_observation :: string
  st_raw_results :: pyval

record obs_entry =
  ob_tool :: pyval
  ob_args :: pyval
  ob_results :: pyval
  ob_summary :: string

text \<open>
  The four prompt templates, each with the values the code interpolates into it; the
  wording of a template is fixed text around these values. The prompt of
  \<open>_decide_action\<close> holds the question, the step number and, for every earlier step, its
  number, thought, action, arguments and observation summary. The prompt of
  \<open>_generate_final_answer\<close> holds the question and, for every observation, the tool, its
  arguments and the summary. The prompts of the query generator hold the question.
\<close>

type_synonym history_entry = "nat \<times> pyval \<times> pyval \<times> pyval \<times> string"

type_synonym context_entry = "pyval \<times> pyval \<times> string"

datatype prompt =
    ActionPrompt string "history_entry list" nat
  | AnswerPrompt string "context_entry list"
  | CypherPrompt pyval
  | SimplePrompt pyval

definition history :: "step list \<Rightarrow> history_entry list" where
  "history thought_chain =
     map (\<lambda>s. (st_step s, st_thought s, st_action s, st_args s, st_observation s)) thought_chain"

definition context_parts :: "obs_entry list \<Rightarrow> context_entry list" where
  "context_parts observations = map (\<lambda>obs. (ob_tool obs, ob_args obs, ob_summary obs)) observations"

text \<open>
  What a run does to the outside, in order: a request to the language model, a query to
  the graph store, and an invocation of the executor.
\<close>

datatype event =
    LLMCall prompt
  | StoreQuery query
  | ToolExec pyval pyval

text \<open>
  The collaborators the code does not define. \<open>unicode_tables\<close> are Python's Unicode
  tables, as the safety gate uses them. \<open>json_loads\<close> is \<open>json.loads\<close>, \<open>None\<close> where it
  raises. \<open>py_repr\<close> is the text \<open>str\<close> gives for a list or a dictionary. \<open>llm\<close>
  is the text the language model service returns for a prompt (the empty string when the
  request fails, as \<open>_call_llm\<close> and \<open>_call_ollama\<close> return it); \<open>store\<close> is the graph
  store. Both may answer differently as the run goes on, so they see the events so far.
\<close>

record env =
  unicode_tables :: unicode
  json_loads :: "string \<Rightarrow> pyval option"
  py_repr :: "pyval \<Rightarrow> string"
  llm :: "event list \<Rightarrow> prompt \<Rightarrow> string"
  store :: "event list \<Rightarrow> query \<Rightarrow> exn + row list"

definition call_llm :: "env \<Rightarrow> event list \<Rightarrow> prompt \<Rightarrow> string \<times> event list" where
  "call_llm e tr p = (llm e tr p, tr @ [LLMCall p])"

definition execute_query :: "env \<Rightarrow> event list \<Rightarrow> query \<Rightarrow> (exn + row list) \<times> event list" where
  "execute_query e tr q = (store e tr q, tr @ [StoreQuery q])"

text \<open>\<open>str(v)\<close>, as an f-string renders a value.\<close>

definition py_str :: "env \<Rightarrow> pyval \<Rightarrow> string" where
  "py_str e v =
     (case v of
        PNone \<Rightarrow> ''None''
      | PBool b \<Rightarrow> (if b then ''True'' else ''False'')
      | PInt i \<Rightarrow> py_str_int i
      | PStr s \<Rightarrow> s
      | _ \<Rightarrow> py_repr e v)"

section \<open>The structured-response parser\<close>

text \<open>
  The text after the first occurrence of \<open>sub\<close>, and the text before it.
\<close>

fun after_first :: "string \<Rightarrow> string \<Rightarrow> string option" where
  "after_first sub [] = (if sub = [] then Some [] else None)"
| "after_first sub (c # cs) =
     (if prefix sub (c # cs) then Some (drop (length sub) (c # cs)) else after_first sub cs)"

fun before_first :: "string \<Rightarrow> string \<Rightarrow> string option" where
  "before_first sub [] = (if sub = [] then Some [] else None)"
| "before_first sub (c # cs) =
     (if prefix sub (c # cs) then Some [] else map_option ((#) c) (before_first sub cs))"

definition fence :: string where
  "fence = [CHR 0x60, CHR 0x60, CHR 0x60]"

text \<open>
  \<open>re.search(r"```(?:json)?\s*(.*?)```", text, re.DOTALL)\<close>, giving group 1. The
  search matches at the first fence that has another fence after it: the optional
  \<open>json\<close> and the whitespace are taken greedily (neither can hold the start of a fence),
  and the lazy group then runs up to the next fence.
\<close>

definition fence_search :: "string \<Rightarrow> string option" where
  "fence_search text =
     (case after_first fence text of
        None \<Rightarrow> None
      | Some rest \<Rightarrow>
          (let rest1 = (if prefix ''json'' rest then drop 4 rest else rest);
               rest2 = dropWhile is_space rest1
           in before_first fence rest2))"

text \<open>
  \<open>re.search(r"\{.*\}", text, re.DOTALL)\<close>, giving the match: the greedy \<open>.*\<close> runs from
  the first opening brace to the last closing brace after it.
\<close>

definition brace_search :: "string \<Rightarrow> string option" where
  "brace_search text =
     (let from_open = dropWhile (\<lambda>c. c \<noteq> CHR ''{'') text;
          to_close = rev (dropWhile (\<lambda>c. c \<noteq> CHR ''}'') (rev from_open))
      in if to_close = [] then None else Some to_close)"

text \<open>
  \<open>CypherGenerator._extract_json\<close> and \<open>ResearchAgent._parse_json\<close>: the same three
  attempts. \<open>PNone\<close> is Python's \<open>None\<close>, returned when every attempt raised (and when
  an attempt decoded the JSON text \<open>null\<close>).
\<close>

definition extract_json :: "env \<Rightarrow> string \<Rightarrow> pyval" where
  "extract_json e text0 =
     (let text = py_strip text0 in
      case json_loads e text of
        Some v \<Rightarrow> v
      | None \<Rightarrow>
          (case Option.bind (fence_search text) (\<lambda>g. json_loads e (py_strip g)) of
             Some v \<Rightarrow> v
           | None \<Rightarrow>
               (case Option.bind (brace_search text) (json_loads e) of
                  Some v \<Rightarrow> v
                | None \<Rightarrow> PNone)))"

definition parse_json :: "env \<Rightarrow> string \<Rightarrow> pyval" where
  "parse_json e text0 =
     (let text = py_strip text0 in
      case json_loads e text of
        Some v \<Rightarrow> v
      | None \<Rightarrow>
          (case Option.bind (fence_search text) (\<lambda>g. json_loads e (py_strip g)) of
             Some v \<Rightarrow> v
           | None \<Rightarrow>
               (case Option.bind (brace_search text) (json_loads e) of
                  Some v \<Rightarrow> v
                | None \<Rightarrow> PNone)))"

section \<open>The query generation adapter\<close>

text \<open>
  The dictionary \<open>generate_cypher\<close> returns. \<open>Generated c r\<close> is the decoded response
  \<open>r\<close> returned as it is, \<open>c\<close> being its entry \<open>cypher\<close>, the text that passed the safety
  check. \<open>GenError\<close> is a dictionary whose entry \<open>cypher\<close> is \<open>None\<close>, with the error it
  names: the provider is not supported, no query field after the retry
  (\<open>JSON parse failed both attempts\<close>), \<open>unsafe_query\<close> with the message of the safety
  check, or an exception caught by the handler around the whole body.
\<close>

datatype gen_error =
    UnsupportedProvider
  | ParseFailed
  | UnsafeQuery string
  | Caught exn

datatype gen_result =
    Generated string pyval
  | GenError gen_error

text \<open>\<open>not result or "cypher" not in result\<close>. A number or \<open>True\<close> has no \<open>in\<close>.\<close>

definition lacks_cypher :: "pyval \<Rightarrow> exn + bool" where
  "lacks_cypher result =
     (if \<not> truthy result then Inr True
      else case result of
             PDict kvs \<Rightarrow> Inr (''cypher'' \<notin> set (map fst kvs))
           | PList xs \<Rightarrow> Inr (PStr ''cypher'' \<notin> set xs)
           | PStr s \<Rightarrow> Inr (\<not> contains ''cypher'' s)
           | _ \<Rightarrow> Inl TypeError)"

text \<open>
  The end of \<open>generate_cypher\<close>: \<open>result["cypher"]\<close>, the safety check on it (\<open>upper\<close>
  exists on strings only), and the result returned.
\<close>

definition check_generated :: "unicode \<Rightarrow> pyval \<Rightarrow> gen_result" where
  "check_generated u result =
     (case result of
        PDict kvs \<Rightarrow>
          (case map_of kvs ''cypher'' of
             None \<Rightarrow> GenError (Caught OtherError)
           | Some (PStr cypher) \<Rightarrow>
               (case safety_check u cypher of
                  Some safety_error \<Rightarrow> GenError (UnsafeQuery safety_error)
                | None \<Rightarrow> Generated cypher result)
           | Some _ \<Rightarrow> GenError (Caught AttributeError))
      | _ \<Rightarrow> GenError (Caught TypeError))"

definition generate_cypher ::
  "env \<Rightarrow> event list \<Rightarrow> string \<Rightarrow> pyval \<Rightarrow> gen_result \<times> event list" where
  "generate_cypher e tr llm_provider user_question =
     (if llm_provider \<noteq> ''ollama'' then (GenError UnsupportedProvider, tr)
      else
        (let (raw_response, tr1) = call_llm e tr (CypherPrompt user_question);
             result1 = extract_json e raw_response
         in case lacks_cypher result1 of
              Inl x \<Rightarrow> (GenError (Caught x), tr1)
            | Inr retry \<Rightarrow>
                (let (result, tr2) =
                       (if retry
                        then (let (raw_response2, tr') = call_llm e tr1 (SimplePrompt user_question)
                              in (extract_json e raw_response2, tr'))
                        else (result1, tr1))
                 in case lacks_cypher result of
                      Inl x \<Rightarrow> (GenError (Caught x), tr2)
                    | Inr True \<Rightarrow> (GenError ParseFailed, tr2)
                    | Inr False \<Rightarrow> (check_generated (unicode_tables e) result, tr2))))"


section \<open>The search functions and the tools\<close>

text \<open>
  \<open>KnowledgeGraphSearch\<close>: each function sends its query with its parameter and
  returns the rows. Only \<open>get_most_cited_papers\<close> sends a query with a \<open>LIMIT\<close>.
\<close>

definition search_papers_by_keyword ::
  "env \<Rightarrow> event list \<Rightarrow> pyval \<Rightarrow> (exn + row list) \<times> event list" where
  "search_papers_by_keyword e tr keyword = execute_query e tr (KeywordQuery keyword)"

definition search_by_author ::
  "env \<Rightarrow> event list \<Rightarrow> pyval \<Rightarrow> (exn + row list) \<times> event list" where
  "search_by_author e tr author_name = execute_query e tr (AuthorQuery author_name)"

definition search_by_institution ::
  "env \<Rightarrow> event list \<Rightarrow> pyval \<Rightarrow> (exn + row list) \<times> event list" where
  "search_by_institution e tr institution_name =
     execute_query e tr (InstitutionQuery institution_name)"

definition search_by_topic ::
  "env \<Rightarrow> event list \<Rightarrow> pyval \<Rightarrow> (exn + row list) \<times> event list" where
  "search_by_topic e tr topic = execute_query e tr (TopicQuery topic)"

definition get_most_cited_papers ::
  "env \<Rightarrow> event list \<Rightarrow> int \<Rightarrow> (exn + row list) \<times> event list" where
  "get_most_cited_papers e tr limit = execute_query e tr (MostCitedQuery limit)"

text \<open>\<open>get_statistics\<close>: \<open>results[0] if results else {}\<close>.\<close>

definition get_statistics :: "env \<Rightarrow> event list \<Rightarrow> (exn + pyval) \<times> event list" where
  "get_statistics e tr =
     (case execute_query e tr StatisticsQuery of
        (Inl x, tr1) \<Rightarrow> (Inl x, tr1)
      | (Inr results, tr1) \<Rightarrow>
          (Inr (case results of [] \<Rightarrow> PDict [] | r # _ \<Rightarrow> PDict r), tr1))"

text \<open>The rows of a search as the Python list of dictionaries a tool returns.\<close>

definition as_list :: "(exn + row list) \<times> event list \<Rightarrow> (exn + pyval) \<times> event list" where
  "as_list r =
     (case r of
        (Inl x, tr) \<Rightarrow> (Inl x, tr)
      | (Inr results, tr) \<Rightarrow> (Inr (PList (map PDict results)), tr))"

text \<open>
  \<open>_tool_keyword_search\<close>. The guard \<open>not query or not query.strip()\<close> sends an empty
  query to the most cited papers; \<open>strip\<close> exists on strings only.
\<close>

definition tool_keyword_search ::
  "env \<Rightarrow> event list \<Rightarrow> pyval \<Rightarrow> (exn + pyval) \<times> event list" where
  "tool_keyword_search e tr query =
     (if \<not> truthy query then as_list (get_most_cited_papers e tr 10)
      else case query of
             PStr q \<Rightarrow>
               (if py_strip q = [] then as_list (get_most_cited_papers e tr 10)
                else case search_papers_by_keyword e tr query of
                       (Inl x, tr1) \<Rightarrow> (Inl x, tr1)
                     | (Inr results, tr1) \<Rightarrow>
                         (if results = [] \<and> length (py_split q) > 2
                          then as_list (search_papers_by_keyword e tr1 (PStr (hd (py_split q))))
                          else (Inr (PList (map PDict results)), tr1)))
           | _ \<Rightarrow> (Inl AttributeError, tr))"

definition tool_author_search ::
  "env \<Rightarrow> event list \<Rightarrow> pyval \<Rightarrow> (exn + pyval) \<times> event list" where
  "tool_author_search e tr name = as_list (search_by_author e tr name)"

definition tool_institution_search ::
  "env \<Rightarrow> event list \<Rightarrow> pyval \<Rightarrow> (exn + pyval) \<times> event list" where
  "tool_institution_search e tr name = as_list (search_by_institution e tr name)"

definition tool_topic_search ::
  "env \<Rightarrow> event list \<Rightarrow> pyval \<Rightarrow> (exn + pyval) \<times> event list" where
  "tool_topic_search e tr topic = as_list (search_by_topic e tr topic)"

definition tool_get_statistics :: "env \<Rightarrow> event list \<Rightarrow> (exn + pyval) \<times> event list" where
  "tool_get_statistics e tr = get_statistics e tr"

text \<open>
  \<open>_tool_cypher_search\<close>. The log line slices \<open>question[:60]\<close> first. A result of the
  generator with no query, and a failure of the generated query in the store, both fall
  back to the keyword query with the question.
\<close>

definition tool_cypher_search ::
  "env \<Rightarrow> event list \<Rightarrow> pyval \<Rightarrow> (exn + pyval) \<times> event list" where
  "tool_cypher_search e tr question =
     (case getitem_slice 60 question of
        Inl x \<Rightarrow> (Inl x, tr)
      | Inr _ \<Rightarrow>
          (case generate_cypher e tr ''ollama'' question of
             (GenError _, tr1) \<Rightarrow> as_list (search_papers_by_keyword e tr1 question)
           | (Generated cypher _, tr1) \<Rightarrow>
               (if cypher = [] then as_list (search_papers_by_keyword e tr1 question)
                else case execute_query e tr1 (GeneratedQuery cypher) of
                       (Inl x, tr2) \<Rightarrow> as_list (search_papers_by_keyword e tr2 question)
                     | (Inr results, tr2) \<Rightarrow> (Inr (PList (map PDict results)), tr2))))"

section \<open>The tool registry and the executor\<close>

datatype tool =
    KeywordSearch
  | AuthorSearch
  | InstitutionSearch
  | TopicSearch
  | CypherSearch
  | GetStatistics

text \<open>\<open>self.tools\<close>.\<close>

definition tools :: "string \<Rightarrow> tool option" where
  "tools =
     map_of [(''keyword_search'', KeywordSearch),
             (''author_search'', AuthorSearch),
             (''institution_search'', InstitutionSearch),
             (''topic_search'', TopicSearch),
             (''cypher_search'', CypherSearch),
             (''get_statistics'', GetStatistics)]"

text \<open>
  The name of the one parameter a tool method takes after \<open>self\<close>; \<open>get_statistics\<close>
  takes none. Only \<open>query\<close> of the keyword search has a default, the empty string.
\<close>

fun param_name :: "tool \<Rightarrow> string option" where
  "param_name KeywordSearch = Some ''query''"
| "param_name AuthorSearch = Some ''name''"
| "param_name InstitutionSearch = Some ''name''"
| "param_name TopicSearch = Some ''topic''"
| "param_name CypherSearch = Some ''question''"
| "param_name GetStatistics = None"

fun tool_body :: "env \<Rightarrow> event list \<Rightarrow> tool \<Rightarrow> pyval \<Rightarrow> (exn + pyval) \<times> event list" where
  "tool_body e tr KeywordSearch v = tool_keyword_search e tr v"
| "tool_body e tr AuthorSearch v = tool_author_search e tr v"
| "tool_body e tr InstitutionSearch v = tool_institution_search e tr v"
| "tool_body e tr TopicSearch v = tool_topic_search e tr v"
| "tool_body e tr CypherSearch v = tool_cypher_search e tr v"
| "tool_body e tr GetStatistics v = (Inl TypeError, tr)"

text \<open>
  \<open>self.tools[tool_name](**tool_args)\<close>: the arguments must be a dictionary, every key
  of it must be the parameter of the method, and a parameter with no default must be
  there; otherwise the call raises \<open>TypeError\<close> before the method runs.
\<close>

definition call_named ::
  "env \<Rightarrow> event list \<Rightarrow> tool \<Rightarrow> pyval \<Rightarrow> (exn + pyval) \<times> event list" where
  "call_named e tr t tool_args =
     (case tool_args of
        PDict kvs \<Rightarrow>
          (case param_name t of
             None \<Rightarrow> (if kvs = [] then tool_get_statistics e tr else (Inl TypeError, tr))
           | Some p \<Rightarrow>
               (if \<exists>k \<in> set (map fst kvs). k \<noteq> p then (Inl TypeError, tr)
                else case map_of kvs p of
                       Some v \<Rightarrow> tool_body e tr t v
                     | None \<Rightarrow>
                         (if t = KeywordSearch then tool_body e tr t (PStr []) else (Inl TypeError, tr))))
      | _ \<Rightarrow> (Inl TypeError, tr))"

text \<open>\<open>self.tools[tool_name](first_val)\<close>: one positional argument.\<close>

definition call_positional ::
  "env \<Rightarrow> event list \<Rightarrow> tool \<Rightarrow> pyval \<Rightarrow> (exn + pyval) \<times> event list" where
  "call_positional e tr t first_val = tool_body e tr t first_val"

text \<open>\<open>list(tool_args.values())[0] if tool_args else ""\<close>.\<close>

definition first_value :: "pyval \<Rightarrow> exn + pyval" where
  "first_value tool_args =
     (if \<not> truthy tool_args then Inr (PStr [])
      else case tool_args of
             PDict kvs \<Rightarrow> Inr (snd (hd kvs))
           | _ \<Rightarrow> Inl AttributeError)"

text \<open>
  Looking a name up in \<open>self.tools\<close>: a list or a dictionary is unhashable and raises
  \<open>TypeError\<close>, every other value that is not a registered name is absent.
\<close>

definition lookup_tool :: "pyval \<Rightarrow> exn + tool option" where
  "lookup_tool tool_name =
     (case tool_name of
        PStr n \<Rightarrow> Inr (tools n)
      | PList _ \<Rightarrow> Inl TypeError
      | PDict _ \<Rightarrow> Inl TypeError
      | _ \<Rightarrow> Inr None)"

text \<open>
  The two handlers of \<open>_execute_tool\<close>, entered with the exception raised in the \<open>try\<close>
  block and with \<open>tool_name\<close> and \<open>tool_args\<close> as they are bound at that moment (\<open>None\<close>
  for a name that cannot be looked up). \<open>except TypeError\<close> calls the tool once more,
  positionally, and turns any failure of that into the empty list; \<open>except Exception\<close>
  returns the empty list.
\<close>

definition handle_error ::
  "env \<Rightarrow> event list \<Rightarrow> exn \<Rightarrow> tool option \<Rightarrow> pyval \<Rightarrow> (exn + pyval) \<times> event list" where
  "handle_error e tr x t tool_args =
     (if x = TypeError
      then (case first_value tool_args of
              Inl _ \<Rightarrow> (Inr (PList []), tr)
            | Inr first_val \<Rightarrow>
                (case t of
                   None \<Rightarrow> (Inr (PList []), tr)
                 | Some t' \<Rightarrow>
                     (case call_positional e tr t' first_val of
                        (Inl _, tr1) \<Rightarrow> (Inr (PList []), tr1)
                      | (Inr result, tr1) \<Rightarrow> (Inr result, tr1))))
      else (Inr (PList []), tr))"

text \<open>
  The call in the \<open>try\<close> block, \<open>self.tools[tool_name](**tool_args)\<close>, with the handlers
  around it.
\<close>

definition invoke ::
  "env \<Rightarrow> event list \<Rightarrow> tool \<Rightarrow> pyval \<Rightarrow> (exn + pyval) \<times> event list" where
  "invoke e tr t tool_args =
     (case call_named e tr t tool_args of
        (Inl x, tr1) \<Rightarrow> handle_error e tr1 x (Some t) tool_args
      | (Inr result, tr1) \<Rightarrow> (Inr result, tr1))"

text \<open>
  \<open>_execute_tool\<close>. A name that is not registered is replaced by \<open>keyword_search\<close> and
  the arguments by \<open>{"query": first value}\<close> before the call.
\<close>

definition execute_tool ::
  "env \<Rightarrow> event list \<Rightarrow> pyval \<Rightarrow> pyval \<Rightarrow> (exn + pyval) \<times> event list" where
  "execute_tool e tr0 tool_name tool_args =
     (let tr = tr0 @ [ToolExec tool_name tool_args] in
      case lookup_tool tool_name of
        Inl x \<Rightarrow> handle_error e tr x None tool_args
      | Inr (Some t) \<Rightarrow> invoke e tr t tool_args
      | Inr None \<Rightarrow>
          (case first_value tool_args of
             Inl x \<Rightarrow> handle_error e tr x (Some KeywordSearch) tool_args
           | Inr v \<Rightarrow> invoke e tr KeywordSearch (PDict [(''query'', v)])))"

section \<open>Observations\<close>

text \<open>\<open>sep.join(lines)\<close>.\<close>

fun join :: "string \<Rightarrow> string list \<Rightarrow> string" where
  "join sep [] = []"
| "join sep [x] = x"
| "join sep (x # y # ys) = x @ sep @ join sep (y # ys)"

definition em_dash :: string where
  "em_dash = [CHR 0xE2, CHR 0x80, CHR 0x94]"

text \<open>
  The line of one record in the summary. \<open>item.get\<close> exists on dictionaries only, and
  \<open>title[:70]\<close> raises on a title that cannot be sliced.
\<close>

definition item_line :: "env \<Rightarrow> nat \<Rightarrow> pyval \<Rightarrow> exn + string" where
  "item_line e i item =
     (case item of
        PDict kvs \<Rightarrow>
          (let title = dict_get kvs ''title'' (dict_get kvs ''p.title'' (PStr ''Unknown''));
               citations = dict_get kvs ''citations'' (dict_get kvs ''p.citation_count'' (PStr ''?''));
               year = dict_get kvs ''year'' (dict_get kvs ''p.year'' (PStr []));
               author = dict_get kvs ''author'' (PStr []);
               year_str = (if truthy year then '' ('' @ py_str e year @ '')'' else []);
               auth_str = (if truthy author then '' '' @ em_dash @ '' '' @ py_str e author else [])
           in case getitem_slice 70 title of
                Inl x \<Rightarrow> Inl x
              | Inr t \<Rightarrow>
                  Inr (''  '' @ decimal i @ ''. '' @ py_str e t @ year_str @ auth_str @
                       '' ['' @ py_str e citations @ '' citations]''))
      | _ \<Rightarrow> Inl AttributeError)"

text \<open>The loop over \<open>enumerate(observation[:5], 1)\<close>; the first exception ends it.\<close>

fun item_lines :: "env \<Rightarrow> nat \<Rightarrow> pyval list \<Rightarrow> exn + string list" where
  "item_lines e i [] = Inr []"
| "item_lines e i (item # items) =
     (case item_line e i item of
        Inl x \<Rightarrow> Inl x
      | Inr l \<Rightarrow> (case item_lines e (i + 1) items of Inl x \<Rightarrow> Inl x | Inr ls \<Rightarrow> Inr (l # ls)))"

text \<open>\<open>round(observation.get('avg_citations') or 0, 1)\<close> on the values represented.\<close>

definition round_avg :: "row \<Rightarrow> exn + pyval" where
  "round_avg kvs =
     (let a = dict_get kvs ''avg_citations'' PNone;
          v = (if truthy a then a else PInt 0)
      in case v of
           PInt i \<Rightarrow> Inr (PInt i)
         | PBool b \<Rightarrow> Inr (PInt (if b then 1 else 0))
         | _ \<Rightarrow> Inl TypeError)"

text \<open>\<open>_summarize_observation\<close>.\<close>

definition summarize_observation :: "env \<Rightarrow> pyval \<Rightarrow> exn + string" where
  "summarize_observation e observation =
     (case observation of
        PDict kvs \<Rightarrow>
          (if ''total_papers'' \<in> set (map fst kvs)
           then (case round_avg kvs of
                   Inl x \<Rightarrow> Inl x
                 | Inr avg \<Rightarrow>
                     Inr (''Statistics: '' @ py_str e (dict_get kvs ''total_papers'' (PInt 0)) @ '' papers, '' @
                          py_str e (dict_get kvs ''total_authors'' (PInt 0)) @ '' authors, '' @
                          py_str e (dict_get kvs ''total_topics'' (PInt 0)) @ '' topics, '' @
                          py_str e (dict_get kvs ''total_institutions'' (PInt 0)) @ '' institutions, '' @
                          ''avg citations: '' @ py_str e avg))
           else Inr (take 300 (py_str e observation)))
      | PList items \<Rightarrow>
          (if items = [] then Inr ''No results found.''
           else case item_lines e 1 (take 5 items) of
                  Inl x \<Rightarrow> Inl x
                | Inr ls \<Rightarrow>
                    Inr (join [CHR 0x0A]
                          ([''Found '' @ decimal (length items) @ '' results:''] @ ls @
                           (if length items > 5
                            then [''  ... and '' @ decimal (length items - 5) @ '' more'']
                            else []))))
      | _ \<Rightarrow> Inr (take 300 (py_str e observation)))"

text \<open>\<open>_has_sufficient_results\<close>.\<close>

definition has_sufficient_results :: "pyval \<Rightarrow> bool" where
  "has_sufficient_results observation =
     (case observation of
        PDict kvs \<Rightarrow> ''total_papers'' \<in> set (map fst kvs)
      | PList items \<Rightarrow> length items \<ge> 3
      | _ \<Rightarrow> False)"

section \<open>The action planner\<close>

text \<open>
  The institution name:
  \<open>re.search(r"from ([A-Za-z ]+?)(?:\s+(?:paper|author|research)|$)", question, re.I)\<close>.
  \<open>name_end\<close> is the part after the group, matched at the start of the text left: some
  whitespace and one of the three words, or the end of the text (also before a final
  line feed). The group is lazy: \<open>lazy_name\<close> stops at the first length, at least one,
  where \<open>name_end\<close> holds. \<open>search_from\<close> tries the start positions from the left.
\<close>

definition ci_prefix :: "string \<Rightarrow> string \<Rightarrow> bool" where
  "ci_prefix p s = prefix (py_lower p) (py_lower s)"

definition name_char :: "char \<Rightarrow> bool" where
  "name_char c = (is_lower_char c \<or> is_upper_char c \<or> c = CHR '' '')"

definition name_end :: "string \<Rightarrow> bool" where
  "name_end rest =
     ((rest \<noteq> [] \<and> is_space (hd rest) \<and>
        (let r = dropWhile is_space rest
         in ci_prefix ''paper'' r \<or> ci_prefix ''author'' r \<or> ci_prefix ''research'' r))
      \<or> rest = [] \<or> rest = [CHR 0x0A])"

fun lazy_name :: "string \<Rightarrow> string \<Rightarrow> string option" where
  "lazy_name acc [] = (if acc \<noteq> [] \<and> name_end [] then Some acc else None)"
| "lazy_name acc (c # cs) =
     (if acc \<noteq> [] \<and> name_end (c # cs) then Some acc
      else if name_char c then lazy_name (acc @ [c]) cs
      else None)"

fun search_from :: "string \<Rightarrow> string option" where
  "search_from [] = None"
| "search_from (c # cs) =
     (if ci_prefix ''from '' (c # cs)
      then (case lazy_name [] (drop 5 (c # cs)) of
              Some g \<Rightarrow> Some g
            | None \<Rightarrow> search_from cs)
      else search_from cs)"

definition stats_decision :: pyval where
  "stats_decision =
     PDict [(''thought'', PStr (''Question asks for counts/statistics '' @ em_dash @
                                '' using get_statistics directly.'')),
            (''tool'', PStr ''get_statistics''),
            (''args'', PDict [])]"

definition institution_decision :: "string \<Rightarrow> pyval" where
  "institution_decision question =
     (let inst_name = (case search_from question of Some g \<Rightarrow> py_strip g | None \<Rightarrow> ''IIT'')
      in PDict [(''thought'', PStr (''Question asks about an institution '' @ em_dash @
                                    '' using institution_search.'')),
                (''tool'', PStr ''institution_search''),
                (''args'', PDict [(''name'', PStr inst_name)])])"

definition finish_decision :: pyval where
  "finish_decision =
     PDict [(''thought'', PStr ''I already have sufficient results from the previous step.''),
            (''tool'', PStr ''FINISH''),
            (''args'', PDict [])]"

text \<open>
  The fallback: the first four words of the question longer than three characters, or
  the whole question when there is none.
\<close>

definition fallback_decision :: "string \<Rightarrow> pyval" where
  "fallback_decision question =
     (let words = filter (\<lambda>w. length w > 3) (py_split question);
          query = (if words \<noteq> [] then join '' '' (take 4 words) else question)
      in PDict [(''thought'', PStr ''Falling back to keyword search''),
                (''tool'', PStr ''keyword_search''),
                (''args'', PDict [(''query'', PStr query)])])"

text \<open>\<open>_decide_action\<close>.\<close>

definition decide_action ::
  "env \<Rightarrow> event list \<Rightarrow> string \<Rightarrow> step list \<Rightarrow> nat \<Rightarrow> pyval \<times> event list" where
  "decide_action e tr question thought_chain step_number =
     (let q = py_lower question in
      if step_number = 1 \<and>
         list_ex (\<lambda>w. contains w q) [''how many'', ''total'', ''count'', ''statistics'', ''overview'']
      then (stats_decision, tr)
      else if step_number = 1 \<and>
         list_ex (\<lambda>w. contains w q)
           [''iit'', ''mit'', ''stanford'', ''university'', ''institution'', ''college'']
      then (institution_decision question, tr)
      else if step_number \<ge> 2 \<and> thought_chain \<noteq> [] \<and>
         contains ''Found'' (st_observation (last thought_chain)) \<and>
         \<not> contains ''0 results'' (st_observation (last thought_chain))
      then (finish_decision, tr)
      else
        (let (raw, tr1) = call_llm e tr (ActionPrompt question (history thought_chain) step_number);
             result = parse_json e raw
         in if \<not> truthy result then (fallback_decision question, tr1) else (result, tr1)))"

section \<open>The answer synthesizer and the reasoning loop\<close>

definition MAX_STEPS :: nat where
  "MAX_STEPS = 3"

text \<open>\<open>_generate_final_answer\<close>.\<close>

definition generate_final_answer ::
  "env \<Rightarrow> event list \<Rightarrow> string \<Rightarrow> obs_entry list \<Rightarrow> string \<times> event list" where
  "generate_final_answer e tr question observations =
     (if observations = []
      then (''I couldn't find relevant information for your question in the knowledge graph.'', tr)
      else
        (let (answer, tr1) = call_llm e tr (AnswerPrompt question (context_parts observations))
         in (if answer \<noteq> [] then py_strip answer
             else ''Could not generate an answer from the retrieved data.'', tr1)))"

text \<open>
  How the \<open>for\<close> loop of \<open>run\<close> is left: by the \<open>return\<close> of the \<open>FINISH\<close> branch at the
  loop index \<open>step\<close>, or at its end (the range is exhausted, or the \<open>break\<close> after
  sufficient results).
\<close>

datatype loop_exit =
    ViaFinish nat "step list" "obs_entry list"
  | ViaLoopEnd "step list" "obs_entry list"

text \<open>
  The loop, with \<open>n\<close> iterations left and \<open>step\<close> the loop index. \<open>action_decision.get\<close>
  exists on dictionaries only.
\<close>

fun run_loop ::
  "env \<Rightarrow> string \<Rightarrow> nat \<Rightarrow> nat \<Rightarrow> step list \<Rightarrow> obs_entry list \<Rightarrow> event list \<Rightarrow>
   (exn + loop_exit) \<times> event list" where
  "run_loop e question 0 step thought_chain all_observations tr =
     (Inr (ViaLoopEnd thought_chain all_observations), tr)"
| "run_loop e question (Suc n) step thought_chain all_observations tr =
     (let (action_decision, tr1) = decide_action e tr question thought_chain (step + 1) in
      case action_decision of
        PDict kvs \<Rightarrow>
          (let tool_name = dict_get kvs ''tool'' (PStr ''keyword_search'');
               tool_args = dict_get kvs ''args'' (PDict []);
               thought = dict_get kvs ''thought'' (PStr [])
           in if tool_name = PStr ''FINISH''
              then (Inr (ViaFinish step thought_chain all_observations), tr1)
              else
                (case execute_tool e tr1 tool_name tool_args of
                   (Inl x, tr2) \<Rightarrow> (Inl x, tr2)
                 | (Inr observation, tr2) \<Rightarrow>
                     (case summarize_observation e observation of
                        Inl x \<Rightarrow> (Inl x, tr2)
                      | Inr obs_summary \<Rightarrow>
                          (let thought_chain' = thought_chain @
                                 [\<lparr>st_step = step + 1, st_thought = thought, st_action = tool_name,
                                   st_args = tool_args, st_observation = obs_summary,
                                   st_raw_results = observation\<rparr>];
                               all_observations' = all_observations @
                                 [\<lparr>ob_tool = tool_name, ob_args = tool_args,
                                   ob_results = observation, ob_summary = obs_summary\<rparr>]
                           in if has_sufficient_results observation \<and> step \<ge> 1
                              then (Inr (ViaLoopEnd thought_chain' all_observations'), tr2)
                              else run_loop e question n (step + 1) thought_chain'
                                     all_observations' tr2))))
      | _ \<Rightarrow> (Inl AttributeError, tr1))"

text \<open>
  The dictionary \<open>run\<close> returns, without \<open>latency_s\<close> (the elapsed wall-clock time).
\<close>

record agent_result =
  res_question :: string
  res_answer :: string
  res_thought_chain :: "step list"
  res_steps_taken :: nat
  res_success :: bool

text \<open>\<open>run\<close>.\<close>

definition run :: "env \<Rightarrow> event list \<Rightarrow> string \<Rightarrow> (exn + agent_result) \<times> event list" where
  "run e tr question =
     (case run_loop e question MAX_STEPS 0 [] [] tr of
        (Inl x, tr1) \<Rightarrow> (Inl x, tr1)
      | (Inr (ViaFinish step thought_chain all_observations), tr1) \<Rightarrow>
          (let (answer, tr2) = generate_final_answer e tr1 question all_observations
           in (Inr \<lparr>res_question = question, res_answer = answer,
                    res_thought_chain = thought_chain, res_steps_taken = step,
                    res_success = True\<rparr>, tr2))
      | (Inr (ViaLoopEnd thought_chain all_observations), tr1) \<Rightarrow>
          (let (answer, tr2) = generate_final_answer e tr1 question all_observations
           in (Inr \<lparr>res_question = question, res_answer = answer,
                    res_thought_chain = thought_chain, res_steps_taken = length thought_chain,
                    res_success = (answer \<noteq> [] \<and> \<not> contains ''couldn't find'' (py_lower answer))\<rparr>,
               tr2)))"


section \<open>Properties of runs\<close>

text \<open>
  The events a run adds to those before it: \<open>extends_with P tr tr'\<close> says that \<open>tr'\<close> is
  \<open>tr\<close> followed by events that all satisfy \<open>P\<close>.
\<close>

definition extends_with :: "(event \<Rightarrow> bool) \<Rightarrow> event list \<Rightarrow> event list \<Rightarrow> bool" where
  "extends_with P tr tr' = (\<exists>evs. tr' = tr @ evs \<and> list_all P evs)"

text \<open>
  A property of events that holds of every request to the language model and of every
  query to the store other than a generated query the safety check refuses.
\<close>

definition benign :: "unicode \<Rightarrow> (event \<Rightarrow> bool) \<Rightarrow> bool" where
  "benign u P =
     ((\<forall>p. P (LLMCall p)) \<and>
      (\<forall>q. (\<forall>c. q = GeneratedQuery c \<longrightarrow> safety_check u c = None) \<longrightarrow> P (StoreQuery q)))"

text \<open>An event is safe unless it sends the store a generated query the safety check refuses.\<close>

definition safe_event :: "unicode \<Rightarrow> event \<Rightarrow> bool" where
  "safe_event u ev =
     (case ev of StoreQuery (GeneratedQuery c) \<Rightarrow> safety_check u c = None | _ \<Rightarrow> True)"

text \<open>The number of tool calls in a sequence of events.\<close>

definition is_tool_exec :: "event \<Rightarrow> bool" where
  "is_tool_exec ev = (case ev of ToolExec _ _ \<Rightarrow> True | _ \<Rightarrow> False)"

definition tool_calls :: "event list \<Rightarrow> nat" where
  "tool_calls tr = length (filter is_tool_exec tr)"

text \<open>The thought chain the loop is left with, and the two ways of leaving it.\<close>

fun exit_chain :: "loop_exit \<Rightarrow> step list" where
  "exit_chain (ViaFinish s c obs) = c"
| "exit_chain (ViaLoopEnd c obs) = c"

fun via_finish :: "exn + loop_exit \<Rightarrow> bool" where
  "via_finish (Inr (ViaFinish s c obs)) = True"
| "via_finish _ = False"

fun via_loop_end :: "exn + loop_exit \<Rightarrow> bool" where
  "via_loop_end (Inr (ViaLoopEnd c obs)) = True"
| "via_loop_end _ = False"

text \<open>The planner's decision is the terminal sentinel, as \<open>run\<close> reads it.\<close>

definition decided_finish :: "pyval \<Rightarrow> bool" where
  "decided_finish action_decision =
     (case action_decision of
        PDict kvs \<Rightarrow> dict_get kvs ''tool'' (PStr ''keyword_search'') = PStr ''FINISH''
      | _ \<Rightarrow> False)"

text \<open>
  An argument mapping does not fit the signature of a tool when it has a key that is not
  the tool's parameter, or when it lacks a parameter that has no default. When it fits,
  the named call runs the method on the one value of the mapping, or on the default.
\<close>

definition shape_mismatch :: "tool \<Rightarrow> row \<Rightarrow> bool" where
  "shape_mismatch t kvs =
     (case param_name t of
        None \<Rightarrow> kvs \<noteq> []
      | Some p \<Rightarrow> (\<exists>k \<in> set (map fst kvs). k \<noteq> p) \<or> (kvs = [] \<and> t \<noteq> KeywordSearch))"

definition bound_call ::
  "env \<Rightarrow> event list \<Rightarrow> tool \<Rightarrow> row \<Rightarrow> (exn + pyval) \<times> event list" where
  "bound_call e tr t kvs =
     (case param_name t of
        None \<Rightarrow> tool_get_statistics e tr
      | Some p \<Rightarrow> tool_body e tr t (if kvs = [] then PStr [] else snd (hd kvs)))"

text \<open>The empty list, or the result of the positional call when it returns.\<close>

definition or_empty :: "(exn + pyval) \<times> event list \<Rightarrow> (exn + pyval) \<times> event list" where
  "or_empty r = (case r of (Inl x, tr) \<Rightarrow> (Inr (PList []), tr) | (Inr result, tr) \<Rightarrow> (Inr result, tr))"

text \<open>
  Unicode tables for two letters outside ASCII: the character \<open>0xE9\<close> stands for the
  letter e with acute accent, whose upper case is the character \<open>0xC9\<close>, and the character
  \<open>0x80\<close> stands for the long s (U+017F), whose upper case is the ASCII letter S.
\<close>

definition demo_unicode :: unicode where
  "demo_unicode =
     \<lparr>uni_word = (\<lambda>c. c = CHR 0xE9 \<or> c = CHR 0xC9 \<or> c = CHR 0x80),
      uni_upper = (\<lambda>c. if c = CHR 0xE9 then [CHR 0xC9] else if c = CHR 0x80 then ''S'' else [c])\<rparr>"

text \<open>
  A small world to run the code in: a store with one paper, statistics, ten most cited
  papers and a failing topic query; a language model that answers the query generator
  with the text \<open>42\<close>, the synthesizer with an apology and the planner with nothing; and
  \<open>json.loads\<close> and \<open>str\<close> on the texts and values that occur there. All its texts are
  ASCII, so the Unicode tables are never looked at.
\<close>

definition demo_row :: row where
  "demo_row =
     [(''title'', PStr ''Graph Neural Networks''), (''year'', PInt 2021), (''citations'', PInt 120)]"

definition demo_stats :: row where
  "demo_stats =
     [(''total_papers'', PInt 5), (''total_citations'', PInt 40), (''avg_citations'', PInt 8),
      (''total_authors'', PInt 7), (''total_topics'', PInt 3), (''total_institutions'', PInt 2)]"

definition demo_env :: env where
  "demo_env =
     \<lparr>unicode_tables = \<lparr>uni_word = (\<lambda>c. False), uni_upper = (\<lambda>c. [c])\<rparr>,
      json_loads = map_of [(''42'', PInt 42), (''[1]'', PList [PInt 1])],
      py_repr = (\<lambda>v. if v = PDict [] then ''{}'' else ''[]''),
      llm = (\<lambda>tr p. case p of
                        AnswerPrompt _ _ \<Rightarrow> ''Sorry, I couldn't find matching papers.''
                      | CypherPrompt _ \<Rightarrow> ''42''
                      | _ \<Rightarrow> []),
      store = (\<lambda>tr q. case q of
                          KeywordQuery v \<Rightarrow> (if v = PStr ''graph'' then Inr [demo_row] else Inr [])
                        | AuthorQuery _ \<Rightarrow> Inr [demo_row]
                        | InstitutionQuery _ \<Rightarrow> Inr [demo_row, demo_row]
                        | TopicQuery _ \<Rightarrow> Inl OtherError
                        | MostCitedQuery n \<Rightarrow> Inr (replicate 10 demo_row)
                        | StatisticsQuery \<Rightarrow> Inr [demo_stats]
                        | GeneratedQuery _ \<Rightarrow> Inr [])\<rparr>"

text \<open>The summary of the ten most cited papers of that world, line by line.\<close>

definition demo_summary :: string where
  "demo_summary =
     join [CHR 0x0A]
       [''Found 10 results:'',
        ''  1. Graph Neural Networks (2021) [120 citations]'',
        ''  2. Graph Neural Networks (2021) [120 citations]'',
        ''  3. Graph Neural Networks (2021) [120 citations]'',
        ''  4. Graph Neural Networks (2021) [120 citations]'',
        ''  5. Graph Neural Networks (2021) [120 citations]'',
        ''  ... and 5 more'']"

text \<open>The thought chain after one step that found the ten most cited papers.\<close>

definition demo_chain :: "step list" where
  "demo_chain =
     [\<lparr>st_step = 1, st_thought = PStr ''Falling back to keyword search'',
       st_action = PStr ''keyword_search'', st_args = PDict [(''query'', PStr [])],
       st_observation =
         (case summarize_observation demo_env (PList (map PDict (replicate 10 demo_row))) of
            Inr s \<Rightarrow> s | Inl _ \<Rightarrow> []),
       st_raw_results = PList (map PDict (replicate 10 demo_row))\<rparr>]"



section \<open>Verification\<close>

subsection \<open>Words, traces and the loop\<close>

lemma upper_char_upper: "is_lower_char c \<Longrightarrow> is_upper_char (upper_char c)"
  unfolding upper_char_def is_lower_char_def is_upper_char_def
  by (auto simp: mod_if)

lemma upper_word [simp]: "is_word_char (upper_char c) = is_word_char c"
proof (cases "is_lower_char c")
  case True
  with upper_char_upper [OF True] show ?thesis by (simp add: is_word_char_def)
next
  case False
  then show ?thesis by (simp add: upper_char_def)
qed

lemma match_word_at_iff:
  assumes "kw \<noteq> []" "word_char u (hd kw)" "word_char u (last kw)"
  shows "match_word_at u prev kw s \<longleftrightarrow>
    (\<exists>post. s = kw @ post \<and> \<not> opt_word u prev \<and> (post = [] \<or> \<not> word_char u (hd post)))"
proof -
  have "\<And>post. head_opt (kw @ post) = Some (hd kw)"
    using assms(1) by (cases kw) auto
  moreover have "\<And>post. opt_word u (head_opt post) = (post \<noteq> [] \<and> word_char u (hd post))"
    subgoal for post by (cases post) auto
    done
  ultimately show ?thesis
    using assms by (auto simp: match_word_at_def word_boundary_def prefix_def)
qed

lemma search_word_iff:
  assumes "kw \<noteq> []" "word_char u (hd kw)" "word_char u (last kw)"
  shows "search_word u prev kw s \<longleftrightarrow>
    (\<exists>pre post. s = pre @ kw @ post \<and>
       \<not> opt_word u (if pre = [] then prev else Some (last pre)) \<and>
       (post = [] \<or> \<not> word_char u (hd post)))"
proof (induction s arbitrary: prev)
  case Nil
  show ?case using assms(1) by (simp add: match_word_at_iff [OF assms])
next
  case (Cons c cs)
  let ?ok = "\<lambda>post. post = [] \<or> \<not> word_char u (hd post)"
  have "(\<exists>pre post. c # cs = pre @ kw @ post \<and>
          \<not> opt_word u (if pre = [] then prev else Some (last pre)) \<and> ?ok post)
     \<longleftrightarrow> (\<exists>post. c # cs = kw @ post \<and> \<not> opt_word u prev \<and> ?ok post)
        \<or> (\<exists>pre post. cs = pre @ kw @ post \<and>
              \<not> opt_word u (if pre = [] then Some c else Some (last pre)) \<and> ?ok post)"
    (is "?L \<longleftrightarrow> ?A \<or> ?B")
  proof
    assume ?L
    then obtain pre post where h: "c # cs = pre @ kw @ post"
      "\<not> opt_word u (if pre = [] then prev else Some (last pre))" "?ok post" by blast
    show "?A \<or> ?B"
    proof (cases pre)
      case Nil
      with h show ?thesis by auto
    next
      case (Cons p ps)
      with h have "cs = ps @ kw @ post" "p = c" by auto
      moreover from h(2) Cons \<open>p = c\<close>
      have "\<not> opt_word u (if ps = [] then Some c else Some (last ps))" by auto
      ultimately show ?thesis using h(3) by blast
    qed
  next
    assume "?A \<or> ?B"
    then show ?L
    proof
      assume ?A
      then obtain post where "c # cs = [] @ kw @ post" "\<not> opt_word u prev" "?ok post" by auto
      then show ?L by (intro exI [of _ "[]"] exI [of _ post]) simp
    next
      assume ?B
      then obtain pre post where h: "cs = pre @ kw @ post"
        "\<not> opt_word u (if pre = [] then Some c else Some (last pre))" "?ok post" by blast
      then show ?L by (intro exI [of _ "c # pre"] exI [of _ post]) auto
    qed
  qed
  then show ?case
    by (simp add: match_word_at_iff [OF assms] Cons.IH)
qed


lemma re_search_word_iff:
  assumes "kw \<noteq> []" "word_char u (hd kw)" "word_char u (last kw)"
  shows "re_search_word u kw s \<longleftrightarrow> occurs_as_word u kw s"
proof -
  have "\<And>pre. (\<not> opt_word u (if pre = [] then None else Some (last pre))) =
              (pre = [] \<or> \<not> word_char u (last pre))"
    by simp
  then show ?thesis
    unfolding re_search_word_def search_word_iff [OF assms] occurs_as_word_def by simp
qed

lemma blocked_keyword_ascii:
  "kw \<in> set BLOCKED_CYPHER_KEYWORDS \<Longrightarrow>
   kw \<noteq> [] \<and> is_ascii (hd kw) \<and> is_ascii (last kw) \<and> is_word_char (hd kw) \<and> is_word_char (last kw)"
  by (auto simp: BLOCKED_CYPHER_KEYWORDS_def is_word_char_def is_upper_char_def is_ascii_def)

lemma blocked_keyword_shape:
  "kw \<in> set BLOCKED_CYPHER_KEYWORDS \<Longrightarrow>
   kw \<noteq> [] \<and> word_char u (hd kw) \<and> word_char u (last kw)"
  using blocked_keyword_ascii [of kw] by (simp add: word_char_def)

lemma safety_check_iff: "safety_check u q \<noteq> None \<longleftrightarrow> blocked_word u q"
proof -
  have "safety_check u q \<noteq> None \<longleftrightarrow>
        find (\<lambda>kw. re_search_word u kw (py_upper u q)) BLOCKED_CYPHER_KEYWORDS \<noteq> None"
    by (simp add: safety_check_def Let_def split: option.splits)
  also have "\<dots> \<longleftrightarrow> (\<exists>kw \<in> set BLOCKED_CYPHER_KEYWORDS. re_search_word u kw (py_upper u q))"
    by (auto simp: find_None_iff)
  also have "\<dots> \<longleftrightarrow> blocked_word u q"
    unfolding blocked_word_def using re_search_word_iff blocked_keyword_shape by blast
  finally show ?thesis .
qed

lemma upper_char_ascii: "is_ascii c \<Longrightarrow> is_ascii (upper_char c)"
  unfolding upper_char_def is_lower_char_def is_ascii_def
  by (auto simp: mod_if)

lemma py_upper_ascii: "\<forall>c \<in> set q. is_ascii c \<Longrightarrow> py_upper u q = ascii_upper q"
  by (induction q) (simp_all add: py_upper_def ascii_upper_def)

lemma ascii_upper_ascii: "\<forall>c \<in> set q. is_ascii c \<Longrightarrow> \<forall>c \<in> set (ascii_upper q). is_ascii c"
  by (auto simp: ascii_upper_def upper_char_ascii)

lemma occurs_ascii_upper_iff:
  assumes "\<forall>c \<in> set q. is_ascii c"
  shows "occurs_as_word u kw (ascii_upper q) \<longleftrightarrow> contains_whole_word kw q"
proof
  assume "occurs_as_word u kw (ascii_upper q)"
  then obtain pre' post' where h: "ascii_upper q = pre' @ kw @ post'"
    "pre' = [] \<or> \<not> word_char u (last pre')"
    "post' = [] \<or> \<not> word_char u (hd post')"
    unfolding occurs_as_word_def by blast
  from h(1) obtain pre r where q1: "q = pre @ r" "pre' = map upper_char pre" "kw @ post' = map upper_char r"
    unfolding ascii_upper_def by (auto simp: map_eq_append_conv)
  from q1(3) obtain w post where q2: "r = w @ post" "kw = map upper_char w" "post' = map upper_char post"
    by (metis append_eq_map_conv)
  have "pre = [] \<or> \<not> is_word_char (last pre)"
  proof (cases "pre = []")
    case False
    then have "last pre \<in> set q" using q1(1) by simp
    then have "is_ascii (upper_char (last pre))" using assms upper_char_ascii by blast
    then show ?thesis using h(2) q1(2) False by (simp add: last_map word_char_def)
  qed simp
  moreover have "post = [] \<or> \<not> is_word_char (hd post)"
  proof (cases "post = []")
    case False
    then have "hd post \<in> set q" using q1(1) q2(1) by simp
    then have "is_ascii (upper_char (hd post))" using assms upper_char_ascii by blast
    then show ?thesis using h(3) q2(3) False by (simp add: hd_map word_char_def)
  qed simp
  ultimately show "contains_whole_word kw q"
    unfolding contains_whole_word_def ascii_upper_def using q1(1) q2(1,2) by blast
next
  assume "contains_whole_word kw q"
  then obtain pre w post where h: "q = pre @ w @ post" "ascii_upper w = kw"
    "pre = [] \<or> \<not> is_word_char (last pre)" "post = [] \<or> \<not> is_word_char (hd post)"
    unfolding contains_whole_word_def by blast
  have "ascii_upper q = ascii_upper pre @ kw @ ascii_upper post"
    using h(1,2) by (simp add: ascii_upper_def)
  moreover have "ascii_upper pre = [] \<or> \<not> word_char u (last (ascii_upper pre))"
  proof (cases "pre = []")
    case False
    then have "last pre \<in> set q" using h(1) by simp
    then have "is_ascii (upper_char (last pre))" using assms upper_char_ascii by blast
    then show ?thesis using h(3) False by (simp add: ascii_upper_def last_map word_char_def)
  qed (simp add: ascii_upper_def)
  moreover have "ascii_upper post = [] \<or> \<not> word_char u (hd (ascii_upper post))"
  proof (cases "post = []")
    case False
    then have "hd post \<in> set q" using h(1) by simp
    then have "is_ascii (upper_char (hd post))" using assms upper_char_ascii by blast
    then show ?thesis using h(4) False by (simp add: ascii_upper_def hd_map word_char_def)
  qed (simp add: ascii_upper_def)
  ultimately show "occurs_as_word u kw (ascii_upper q)"
    unfolding occurs_as_word_def by blast
qed

lemma safety_check_ascii_iff:
  assumes "\<forall>c \<in> set q. is_ascii c"
  shows "safety_check u q \<noteq> None \<longleftrightarrow>
         (\<exists>kw \<in> set BLOCKED_CYPHER_KEYWORDS. contains_whole_word kw q)"
  unfolding safety_check_iff blocked_word_def py_upper_ascii [OF assms]
    occurs_ascii_upper_iff [OF assms] ..

lemma extends_with_refl [simp]: "extends_with P tr tr"
  by (simp add: extends_with_def)

lemma extends_with_append [simp]: "extends_with P tr (tr @ evs) = list_all P evs"
  by (simp add: extends_with_def)

lemma extends_with_trans: "extends_with P a b \<Longrightarrow> extends_with P b c \<Longrightarrow> extends_with P a c"
  by (auto simp: extends_with_def)

lemma benign_llm [simp]: "benign u P \<Longrightarrow> P (LLMCall p)"
  by (simp add: benign_def)

lemma benign_store [simp]:
  "benign u P \<Longrightarrow> P (StoreQuery (KeywordQuery v))"
  "benign u P \<Longrightarrow> P (StoreQuery (AuthorQuery v))"
  "benign u P \<Longrightarrow> P (StoreQuery (InstitutionQuery v))"
  "benign u P \<Longrightarrow> P (StoreQuery (TopicQuery v))"
  "benign u P \<Longrightarrow> P (StoreQuery (MostCitedQuery n))"
  "benign u P \<Longrightarrow> P (StoreQuery StatisticsQuery)"
  "benign u P \<Longrightarrow> safety_check u c = None \<Longrightarrow> P (StoreQuery (GeneratedQuery c))"
  by (simp_all add: benign_def)

lemma check_generated_safe:
  "check_generated u result = Generated c r \<Longrightarrow> safety_check u c = None \<and> r = result"
  by (auto simp: check_generated_def split: pyval.splits option.splits)

lemma generate_cypher_trace:
  assumes "generate_cypher e tr p q = (r, tr')"
  shows "\<exists>evs. tr' = tr @ evs \<and> length evs \<le> 2 \<and> (\<forall>ev \<in> set evs. \<exists>pr. ev = LLMCall pr)"
    and "r = Generated c d \<Longrightarrow> safety_check (unicode_tables e) c = None"
  using assms
  by (auto simp: generate_cypher_def call_llm_def Let_def dest: check_generated_safe
      split: if_splits sum.splits prod.splits bool.splits)

lemma generate_cypher_extends:
  assumes "generate_cypher e tr p q = (r, tr')" "benign (unicode_tables e) P"
  shows "extends_with P tr tr'"
proof -
  from generate_cypher_trace(1) [OF assms(1)] obtain evs where
    "tr' = tr @ evs" "\<forall>ev \<in> set evs. \<exists>pr. ev = LLMCall pr" by blast
  with assms(2) show ?thesis by (auto simp: list_all_iff)
qed

lemma snd_as_list [simp]: "snd (as_list r) = snd r"
  by (auto simp: as_list_def split: prod.splits sum.splits)

lemmas search_defs = search_papers_by_keyword_def search_by_author_def search_by_institution_def
      search_by_topic_def get_most_cited_papers_def get_statistics_def execute_query_def as_list_def

lemma tool_keyword_search_extends:
  "benign (unicode_tables e) P \<Longrightarrow> extends_with P tr (snd (tool_keyword_search e tr v))"
  by (auto simp: tool_keyword_search_def search_defs split: pyval.splits sum.splits)

lemma simple_tools_extend:
  assumes "benign (unicode_tables e) P"
  shows "extends_with P tr (snd (tool_author_search e tr v))"
    and "extends_with P tr (snd (tool_institution_search e tr v))"
    and "extends_with P tr (snd (tool_topic_search e tr v))"
    and "extends_with P tr (snd (tool_get_statistics e tr))"
  using assms
  by (auto simp: tool_author_search_def tool_institution_search_def tool_topic_search_def
      tool_get_statistics_def search_defs split: sum.splits)

lemma tool_cypher_search_extends:
  assumes "benign (unicode_tables e) P"
  shows "extends_with P tr (snd (tool_cypher_search e tr v))"
proof (cases "getitem_slice 60 v")
  case (Inl x)
  then show ?thesis by (simp add: tool_cypher_search_def)
next
  case (Inr s)
  obtain r tr1 where g: "generate_cypher e tr ''ollama'' v = (r, tr1)" by force
  have e1: "extends_with P tr tr1" using generate_cypher_extends [OF g assms] .
  have "extends_with P tr1 (snd (tool_cypher_search e tr v))"
  proof (cases r)
    case (GenError x)
    with Inr g assms show ?thesis by (auto simp: tool_cypher_search_def search_defs split: sum.splits)
  next
    case (Generated c d)
    then have "safety_check (unicode_tables e) c = None" using generate_cypher_trace(2) [OF g] by simp
    with Generated Inr g assms show ?thesis
      by (auto simp: tool_cypher_search_def search_defs split: sum.splits)
  qed
  with e1 show ?thesis by (rule extends_with_trans)
qed

lemma tool_body_extends: "benign (unicode_tables e) P \<Longrightarrow> extends_with P tr (snd (tool_body e tr t v))"
  by (cases t) (simp_all add: tool_keyword_search_extends simple_tools_extend tool_cypher_search_extends)

lemma call_named_extends: "benign (unicode_tables e) P \<Longrightarrow> extends_with P tr (snd (call_named e tr t a))"
  by (auto simp: call_named_def tool_body_extends simple_tools_extend tool_keyword_search_extends
      tool_cypher_search_extends simp del: tool_body.simps split: pyval.splits option.splits)

lemma handle_error_extends: "benign (unicode_tables e) P \<Longrightarrow> extends_with P tr (snd (handle_error e tr x t a))"
proof -
  assume b: "benign (unicode_tables e) P"
  have "\<And>t' v. extends_with P tr (snd (call_positional e tr t' v))"
    by (simp add: call_positional_def tool_body_extends b)
  then show ?thesis
    by (auto simp: handle_error_def split: sum.splits option.splits prod.splits)
       (metis snd_conv)+
qed


lemma benign_no_tool: "benign u (\<lambda>ev. \<not> is_tool_exec ev)"
  by (simp add: benign_def is_tool_exec_def)

lemma benign_safe: "benign u (safe_event u)"
  by (auto simp: benign_def safe_event_def split: query.splits)

lemma tool_calls_append [simp]: "tool_calls (a @ b) = tool_calls a + tool_calls b"
  by (simp add: tool_calls_def)

lemma no_tool_extension:
  "extends_with (\<lambda>ev. \<not> is_tool_exec ev) tr tr' \<Longrightarrow> tool_calls tr' = tool_calls tr"
  by (auto simp: extends_with_def tool_calls_def list_all_iff)

lemma invoke_extends:
  assumes "benign (unicode_tables e) P"
  shows "extends_with P tr (snd (invoke e tr t a))"
proof -
  obtain r tr1 where c: "call_named e tr t a = (r, tr1)" by force
  have e1: "extends_with P tr tr1" using call_named_extends [OF assms, of tr t a] c by simp
  have "extends_with P tr1 (snd (invoke e tr t a))"
    using c handle_error_extends [OF assms, of tr1] by (cases r) (simp_all add: invoke_def)
  with e1 show ?thesis by (rule extends_with_trans)
qed

lemma execute_tool_extends:
  assumes "benign (unicode_tables e) P"
  shows "extends_with P (tr @ [ToolExec n a]) (snd (execute_tool e tr n a))"
  using assms invoke_extends [OF assms] handle_error_extends [OF assms]
  by (simp add: execute_tool_def Let_def split: sum.splits option.splits)

lemma execute_tool_calls: "tool_calls (snd (execute_tool e tr n a)) = tool_calls tr + 1"
proof -
  have "tool_calls (snd (execute_tool e tr n a)) = tool_calls (tr @ [ToolExec n a])"
    by (rule no_tool_extension) (rule execute_tool_extends [OF benign_no_tool])
  then show ?thesis by (simp add: tool_calls_def is_tool_exec_def)
qed

lemma execute_tool_safe: "extends_with (safe_event (unicode_tables e)) tr (snd (execute_tool e tr n a))"
proof -
  have "extends_with (safe_event (unicode_tables e)) tr (tr @ [ToolExec n a])" by (simp add: safe_event_def)
  then show ?thesis using execute_tool_extends [OF benign_safe] by (rule extends_with_trans)
qed

lemma decide_action_extends: "benign (unicode_tables e) P \<Longrightarrow> extends_with P tr (snd (decide_action e tr q chain k))"
  by (simp add: decide_action_def call_llm_def Let_def split: prod.splits)

lemma generate_final_answer_extends:
  "benign (unicode_tables e) P \<Longrightarrow> extends_with P tr (snd (generate_final_answer e tr q obs))"
  by (simp add: generate_final_answer_def call_llm_def Let_def split: prod.splits)

lemma execute_tool_returns: "\<exists>v. fst (execute_tool e tr n a) = Inr v"
  by (auto simp: execute_tool_def invoke_def handle_error_def Let_def
      split: sum.splits option.splits prod.splits)


lemma run_loop_safe: "extends_with (safe_event (unicode_tables e)) tr (snd (run_loop e q n step chain obs tr))"
proof (induction n arbitrary: step chain obs tr)
  case 0
  show ?case by simp
next
  case (Suc n)
  obtain dec tr1 where d: "decide_action e tr q chain (step + 1) = (dec, tr1)" by force
  have e1: "extends_with (safe_event (unicode_tables e)) tr tr1"
    using decide_action_extends [OF benign_safe, of e tr q chain "step + 1"] d by simp
  have "extends_with (safe_event (unicode_tables e)) tr1 (snd (run_loop e q (Suc n) step chain obs tr))"
  proof (cases dec)
    case (PDict kvs)
    let ?name = "dict_get kvs ''tool'' (PStr ''keyword_search'')"
    let ?args = "dict_get kvs ''args'' (PDict [])"
    obtain er tr2 where x: "execute_tool e tr1 ?name ?args = (er, tr2)" by force
    have e2: "extends_with (safe_event (unicode_tables e)) tr1 tr2"
      using execute_tool_safe [of e tr1 ?name ?args] x by simp
    show ?thesis
      using d PDict x e2 Suc.IH extends_with_trans [OF e2]
      by (auto simp: Let_def split: sum.splits)
  qed (use d in \<open>simp_all\<close>)
  with e1 show ?case by (rule extends_with_trans)
qed

lemma run_loop_calls:
  assumes "run_loop e q n step chain obs tr = (r, tr')"
  shows "tool_calls tr' \<le> tool_calls tr + n \<and>
         (\<forall>ex. r = Inr ex \<longrightarrow> tool_calls tr' + length chain = tool_calls tr + length (exit_chain ex)) \<and>
         (\<forall>s c obs'. r = Inr (ViaFinish s c obs') \<longrightarrow> s + length chain = step + length c)"
  using assms
proof (induction n arbitrary: step chain obs tr)
  case 0
  then show ?case by auto
next
  case (Suc n)
  obtain dec tr1 where d: "decide_action e tr q chain (step + 1) = (dec, tr1)" by force
  have c1: "tool_calls tr1 = tool_calls tr"
    using no_tool_extension [OF decide_action_extends [OF benign_no_tool, of tr e q chain "step + 1"]] d
    by simp
  show ?case
  proof (cases dec)
    case (PDict kvs)
    let ?name = "dict_get kvs ''tool'' (PStr ''keyword_search'')"
    let ?args = "dict_get kvs ''args'' (PDict [])"
    obtain er tr2 where x: "execute_tool e tr1 ?name ?args = (er, tr2)" by force
    have c2: "tool_calls tr2 = tool_calls tr + 1"
      using execute_tool_calls [of e tr1 ?name ?args] x c1 by simp
    show ?thesis
    proof (cases "?name = PStr ''FINISH''")
      case True
      with Suc.prems d PDict c1 show ?thesis by (auto simp: Let_def)
    next
      case False
      note nf = this
      show ?thesis
      proof (cases er)
        case (Inl y)
        with Suc.prems d PDict x c2 nf show ?thesis by (auto simp: Let_def)
      next
        case (Inr observation)
        show ?thesis
        proof (cases "summarize_observation e observation")
          case (Inl y)
          with Suc.prems d PDict x c2 nf Inr show ?thesis by (auto simp: Let_def)
        next
          case sm: (Inr obs_summary)
          let ?chain = "chain @ [\<lparr>st_step = step + 1, st_thought = dict_get kvs ''thought'' (PStr []),
              st_action = ?name, st_args = ?args, st_observation = obs_summary,
              st_raw_results = observation\<rparr>]"
          let ?obs = "obs @ [\<lparr>ob_tool = ?name, ob_args = ?args, ob_results = observation,
              ob_summary = obs_summary\<rparr>]"
          show ?thesis
          proof (cases "has_sufficient_results observation \<and> step \<ge> 1")
            case True
            with Suc.prems d PDict x c2 nf Inr sm show ?thesis by (auto simp: Let_def)
          next
            case False
            with Suc.prems d PDict x nf Inr sm
            have "run_loop e q n (step + 1) ?chain ?obs tr2 = (r, tr')"
              by (auto simp: Let_def)
            from Suc.IH [OF this] c2 show ?thesis by auto
          qed
        qed
      qed
    qed
  qed (use Suc.prems d c1 in \<open>auto\<close>)
qed

subsection \<open>The claims\<close>

lemma run_safe: "extends_with (safe_event (unicode_tables e)) tr (snd (run e tr question))"
proof -
  obtain r tr1 where l: "run_loop e question MAX_STEPS 0 [] [] tr = (r, tr1)" by force
  have e1: "extends_with (safe_event (unicode_tables e)) tr tr1"
    using run_loop_safe [of e tr question MAX_STEPS 0 "[]" "[]"] l by simp
  have "extends_with (safe_event (unicode_tables e)) tr1 (snd (run e tr question))"
  proof (cases r)
    case (Inl x)
    with l show ?thesis by (simp add: run_def)
  next
    case (Inr ex)
    show ?thesis
      using l Inr generate_final_answer_extends [OF benign_safe, of e tr1 question]
      by (cases ex) (auto simp: run_def split: prod.splits, (metis snd_conv)+)
  qed
  with e1 show ?thesis by (rule extends_with_trans)
qed

lemma check_generated_gate:
  "map_of kvs ''cypher'' = Some (PStr q) \<Longrightarrow>
   check_generated u (PDict kvs) =
     (case safety_check u q of
        Some m \<Rightarrow> GenError (UnsafeQuery m)
      | None \<Rightarrow> Generated q (PDict kvs))"
  by (simp add: check_generated_def split: option.splits)

text \<open>
  Claim C1. The safety gate refuses a generated query exactly when the query, in upper
  case, contains one of the denylisted keywords as a whole word; for an ASCII query that
  is: when the query as written contains the keyword, in any mix of upper and lower
  case, as a whole word. This holds for every query text and whatever the Unicode tables
  say of the characters outside ASCII. A query that reaches the gate is answered with the
  error \<open>unsafe_query\<close> and no query text when the gate refuses it, and is returned as
  generated otherwise; so every query the generator returns is free of the keywords, the
  generator itself sends nothing to the store, and no run of the agent sends the store a
  generated query the gate refuses.
\<close>

theorem safety_gate:
  "(safety_check u q \<noteq> None) =
     (\<exists>kw \<in> set BLOCKED_CYPHER_KEYWORDS. occurs_as_word u kw (py_upper u q)) \<and>
   ((\<forall>c \<in> set q. is_ascii c) \<longrightarrow>
      (safety_check u q \<noteq> None) = (\<exists>kw \<in> set BLOCKED_CYPHER_KEYWORDS. contains_whole_word kw q)) \<and>
   (\<forall>kvs. map_of kvs ''cypher'' = Some (PStr q) \<longrightarrow>
      check_generated u (PDict kvs) =
        (case safety_check u q of
           Some m \<Rightarrow> GenError (UnsafeQuery m)
         | None \<Rightarrow> Generated q (PDict kvs))) \<and>
   (\<forall>c d. fst (generate_cypher e tr provider question) = Generated c d \<longrightarrow>
      \<not> (\<exists>kw \<in> set BLOCKED_CYPHER_KEYWORDS.
            occurs_as_word (unicode_tables e) kw (py_upper (unicode_tables e) c))) \<and>
   extends_with (safe_event (unicode_tables e)) tr (snd (generate_cypher e tr provider question)) \<and>
   extends_with (safe_event (unicode_tables e)) tr (snd (run e tr user_question))"
proof (intro conjI allI impI)
  show "(safety_check u q \<noteq> None) =
     (\<exists>kw \<in> set BLOCKED_CYPHER_KEYWORDS. occurs_as_word u kw (py_upper u q))"
    using safety_check_iff [of u q] by (simp add: blocked_word_def)
next
  assume "\<forall>c \<in> set q. is_ascii c"
  then show "(safety_check u q \<noteq> None) =
      (\<exists>kw \<in> set BLOCKED_CYPHER_KEYWORDS. contains_whole_word kw q)"
    by (rule safety_check_ascii_iff)
next
  fix kvs assume "map_of kvs ''cypher'' = Some (PStr q)"
  then show "check_generated u (PDict kvs) =
        (case safety_check u q of
           Some m \<Rightarrow> GenError (UnsafeQuery m)
         | None \<Rightarrow> Generated q (PDict kvs))"
    by (rule check_generated_gate)
next
  fix c d assume g: "fst (generate_cypher e tr provider question) = Generated c d"
  obtain r tr' where h: "generate_cypher e tr provider question = (r, tr')" by force
  with g have "r = Generated c d" by simp
  from generate_cypher_trace(2) [OF h this] have "safety_check (unicode_tables e) c = None" .
  then show "\<not> (\<exists>kw \<in> set BLOCKED_CYPHER_KEYWORDS.
            occurs_as_word (unicode_tables e) kw (py_upper (unicode_tables e) c))"
    using safety_check_iff [of "unicode_tables e" c] by (simp add: blocked_word_def)
next
  obtain r tr' where h: "generate_cypher e tr provider question = (r, tr')" by force
  from generate_cypher_extends [OF h benign_safe]
  show "extends_with (safe_event (unicode_tables e)) tr (snd (generate_cypher e tr provider question))"
    using h by simp
next
  show "extends_with (safe_event (unicode_tables e)) tr (snd (run e tr user_question))"
    by (rule run_safe)
qed

theorem safety_gate_witness:
  "(\<exists>kw \<in> set BLOCKED_CYPHER_KEYWORDS. contains_whole_word kw ''MATCH (n) detach delete n'') \<and>
   check_generated demo_unicode (PDict [(''cypher'', PStr ''MATCH (n) detach delete n'')]) =
     GenError (UnsafeQuery (''Blocked: Cypher contains write operation '' @ [CHR 0x27] @ ''DELETE'' @ [CHR 0x27])) \<and>
   \<not> (\<exists>kw \<in> set BLOCKED_CYPHER_KEYWORDS.
         contains_whole_word kw ''MATCH (p:Paper) RETURN p.title ORDER BY p.year LIMIT 20'') \<and>
   check_generated demo_unicode
       (PDict [(''cypher'', PStr ''MATCH (p:Paper) RETURN p.title ORDER BY p.year LIMIT 20'')]) =
     Generated ''MATCH (p:Paper) RETURN p.title ORDER BY p.year LIMIT 20''
       (PDict [(''cypher'', PStr ''MATCH (p:Paper) RETURN p.title ORDER BY p.year LIMIT 20'')]) \<and>
   \<not> (\<exists>kw \<in> set BLOCKED_CYPHER_KEYWORDS.
         occurs_as_word demo_unicode kw
           (py_upper demo_unicode (''MATCH (n) RETURN n.'' @ [CHR 0xE9] @ ''DELETE''))) \<and>
   (\<exists>kw \<in> set BLOCKED_CYPHER_KEYWORDS.
         occurs_as_word demo_unicode kw
           (py_upper demo_unicode (''MATCH (n) '' @ [CHR 0x80] @ ''et n.x = 1'')))"
proof -
  let ?bad = "''MATCH (n) detach delete n''"
  let ?good = "''MATCH (p:Paper) RETURN p.title ORDER BY p.year LIMIT 20''"
  let ?acc = "''MATCH (n) RETURN n.'' @ [CHR 0xE9] @ ''DELETE''"
  let ?long = "''MATCH (n) '' @ [CHR 0x80] @ ''et n.x = 1''"
  have b: "safety_check demo_unicode ?bad =
      Some (''Blocked: Cypher contains write operation '' @ [CHR 0x27] @ ''DELETE'' @ [CHR 0x27])"
    by code_simp
  have g: "safety_check demo_unicode ?good = None"
    by code_simp
  have a: "safety_check demo_unicode ?acc = None"
    by code_simp
  have l: "safety_check demo_unicode ?long \<noteq> None"
    by code_simp
  have ab: "\<forall>c \<in> set ?bad. is_ascii c" by code_simp
  have ag: "\<forall>c \<in> set ?good. is_ascii c" by code_simp
  have mb: "map_of [(''cypher'', PStr ?bad)] ''cypher'' = Some (PStr ?bad)" by simp
  have mg: "map_of [(''cypher'', PStr ?good)] ''cypher'' = Some (PStr ?good)" by simp
  note T = safety_gate [where u = demo_unicode]
  have 1: "\<exists>kw \<in> set BLOCKED_CYPHER_KEYWORDS. contains_whole_word kw ?bad"
    using T [where q = ?bad] b ab by (simp del: set_simps)
  have 2: "check_generated demo_unicode (PDict [(''cypher'', PStr ?bad)]) =
     GenError (UnsafeQuery (''Blocked: Cypher contains write operation '' @ [CHR 0x27] @ ''DELETE'' @ [CHR 0x27]))"
    using T [where q = ?bad] b mb by (simp del: map_of.simps)
  have 3: "\<not> (\<exists>kw \<in> set BLOCKED_CYPHER_KEYWORDS. contains_whole_word kw ?good)"
    using T [where q = ?good] g ag by (simp del: set_simps)
  have 4: "check_generated demo_unicode (PDict [(''cypher'', PStr ?good)]) =
     Generated ?good (PDict [(''cypher'', PStr ?good)])"
    using T [where q = ?good] g mg by (simp del: map_of.simps)
  have 5: "\<not> (\<exists>kw \<in> set BLOCKED_CYPHER_KEYWORDS.
         occurs_as_word demo_unicode kw (py_upper demo_unicode ?acc))"
    using T [where q = ?acc] a by blast
  have 6: "\<exists>kw \<in> set BLOCKED_CYPHER_KEYWORDS.
         occurs_as_word demo_unicode kw (py_upper demo_unicode ?long)"
    using T [where q = ?long] l by blast
  from 1 2 3 4 5 6 show ?thesis by blast
qed

lemma contains_iff_sublist: "contains sub s = sublist sub s"
  by (induction s) (auto simp: sublist_Cons_right)

lemma list_ex_contains:
  "list_ex (\<lambda>w. contains w s) ws = (\<exists>w \<in> set ws. sublist w s)"
  by (simp add: list_ex_iff contains_iff_sublist)

text \<open>
  Claim C4. When the lower-cased question contains one of the count phrasings (\<open>how many\<close>,
  \<open>total\<close>, \<open>count\<close>, \<open>statistics\<close>, \<open>overview\<close>), the planner's decision at step 1 is the
  tool \<open>get_statistics\<close> with an empty argument mapping, and the events are left as they
  were: no request goes to the language model.
\<close>

theorem count_phrasing_shortcut:
  assumes "\<exists>w \<in> set [''how many'', ''total'', ''count'', ''statistics'', ''overview''].
             sublist w (py_lower question)"
  shows "\<exists>d. decide_action e tr question thought_chain 1 = (PDict d, tr) \<and>
             map_of d ''tool'' = Some (PStr ''get_statistics'') \<and>
             map_of d ''args'' = Some (PDict [])"
proof -
  have "list_ex (\<lambda>w. contains w (py_lower question))
          [''how many'', ''total'', ''count'', ''statistics'', ''overview'']"
    using assms unfolding list_ex_contains .
  then have "decide_action e tr question thought_chain 1 = (stats_decision, tr)"
    by (simp add: decide_action_def Let_def)
  then show ?thesis by (simp add: stats_decision_def)
qed

theorem count_phrasing_shortcut_witness:
  "(\<exists>w \<in> set [''how many'', ''total'', ''count'', ''statistics'', ''overview''].
      sublist w (py_lower ''How many papers are in the database?'')) \<and>
   (\<exists>d. decide_action demo_env [] ''How many papers are in the database?'' [] 1 = (PDict d, []) \<and>
        map_of d ''tool'' = Some (PStr ''get_statistics'') \<and>
        map_of d ''args'' = Some (PDict []))"
proof -
  have "contains ''how many'' (py_lower ''How many papers are in the database?'')"
    by code_simp
  then have h: "\<exists>w \<in> set [''how many'', ''total'', ''count'', ''statistics'', ''overview''].
      sublist w (py_lower ''How many papers are in the database?'')"
    unfolding contains_iff_sublist by simp
  from h count_phrasing_shortcut [OF h, of demo_env "[]" "[]"] show ?thesis by blast
qed

lemma all_space_strip: "\<forall>c \<in> set q. is_space c \<Longrightarrow> py_strip q = []"
proof -
  assume "\<forall>c \<in> set q. is_space c"
  then have "dropWhile is_space q = []" by (induction q) auto
  then show ?thesis unfolding py_strip_def by (simp only: rev.simps dropWhile.simps)
qed

text \<open>
  Claim C10. For a query string that is empty or holds whitespace only, the keyword-search
  tool sends the store one query, the most cited papers with limit 10, and returns its
  rows; it sends no keyword query. The rows may be there, so the result can be non-empty.
\<close>

theorem empty_query_returns_most_cited:
  assumes "\<forall>c \<in> set q. is_space c"
  shows "tool_keyword_search e tr (PStr q) =
           ((case store e tr (MostCitedQuery 10) of
               Inl x \<Rightarrow> Inl x
             | Inr rows \<Rightarrow> Inr (PList (map PDict rows))),
            tr @ [StoreQuery (MostCitedQuery 10)])"
  using all_space_strip [OF assms]
  by (simp add: tool_keyword_search_def get_most_cited_papers_def execute_query_def as_list_def
      split: sum.splits)

theorem empty_query_returns_most_cited_witness:
  "tool_keyword_search demo_env [] (PStr ''   '') =
     (Inr (PList (map PDict (replicate 10 demo_row))), [StoreQuery (MostCitedQuery 10)]) \<and>
   tool_keyword_search demo_env [] (PStr []) =
     (Inr (PList (map PDict (replicate 10 demo_row))), [StoreQuery (MostCitedQuery 10)])"
proof -
  have h: "\<forall>c \<in> set ''   ''. is_space c" by (simp add: is_space_def)
  have h0: "\<forall>c \<in> set ([] :: string). is_space c" by simp
  have s: "store demo_env [] (MostCitedQuery 10) = Inr (replicate 10 demo_row)"
    by (simp add: demo_env_def)
  from empty_query_returns_most_cited [OF h, of demo_env "[]"]
       empty_query_returns_most_cited [OF h0, of demo_env "[]"] s
  show ?thesis by simp
qed

lemma generate_final_answer_calls:
  "tool_calls (snd (generate_final_answer e tr q obs)) = tool_calls tr"
  by (rule no_tool_extension) (rule generate_final_answer_extends [OF benign_no_tool])

lemma decide_action_calls:
  "tool_calls (snd (decide_action e tr q chain k)) = tool_calls tr"
  by (rule no_tool_extension) (rule decide_action_extends [OF benign_no_tool])

lemma run_calls:
  "tool_calls (snd (run e tr question)) \<le> tool_calls tr + MAX_STEPS \<and>
   (\<forall>r. fst (run e tr question) = Inr r \<longrightarrow>
      tool_calls (snd (run e tr question)) = tool_calls tr + res_steps_taken r \<and>
      res_steps_taken r \<le> MAX_STEPS)"
proof -
  obtain x tr1 where l: "run_loop e question MAX_STEPS 0 [] [] tr = (x, tr1)" by force
  note c = run_loop_calls [OF l]
  show ?thesis
  proof (cases x)
    case (Inl y)
    with l c show ?thesis by (simp add: run_def)
  next
    case (Inr ex)
    obtain a tr2 where g: "generate_final_answer e tr1 question (case ex of ViaFinish s c obs \<Rightarrow> obs | ViaLoopEnd c obs \<Rightarrow> obs) = (a, tr2)"
      by force
    have t2: "tool_calls tr2 = tool_calls tr1"
      using generate_final_answer_calls [of e tr1 question] g by (metis snd_conv)
    show ?thesis
    proof (cases ex)
      case (ViaFinish s ch obs)
      with l Inr c g t2 show ?thesis by (auto simp: run_def)
    next
      case (ViaLoopEnd ch obs)
      with l Inr c g t2 show ?thesis by (auto simp: run_def)
    qed
  qed
qed

lemma finish_iteration:
  assumes "decided_finish (fst (decide_action e tr question chain (step + 1)))"
  shows "run_loop e question (Suc n) step chain obs tr =
           (Inr (ViaFinish step chain obs), snd (decide_action e tr question chain (step + 1)))"
proof -
  obtain dec tr1 where d: "decide_action e tr question chain (step + 1) = (dec, tr1)" by force
  with assms show ?thesis
    by (cases dec) (simp_all add: decided_finish_def Let_def)
qed

text \<open>
  Claim C3. A run makes at most \<open>MAX_STEPS\<close> (3) tool calls, whatever the question, the
  language model and the store do; when it returns a result, the tool calls made are the
  steps the result counts. A step at which the planner decides \<open>FINISH\<close> leaves the loop
  at once and makes no tool call.
\<close>

theorem run_step_bound:
  "MAX_STEPS = 3 \<and>
   tool_calls (snd (run e tr question)) \<le> tool_calls tr + MAX_STEPS \<and>
   (\<forall>r. fst (run e tr question) = Inr r \<longrightarrow>
      tool_calls (snd (run e tr question)) = tool_calls tr + res_steps_taken r \<and>
      res_steps_taken r \<le> MAX_STEPS) \<and>
   (decided_finish (fst (decide_action e tr question chain (step + 1))) \<longrightarrow>
      run_loop e question (Suc n) step chain obs tr =
        (Inr (ViaFinish step chain obs), snd (decide_action e tr question chain (step + 1))) \<and>
      tool_calls (snd (decide_action e tr question chain (step + 1))) = tool_calls tr)"
  using run_calls [of e tr question] finish_iteration [of e tr question chain step n obs]
    decide_action_calls [of e tr question chain "step + 1"]
  by (simp add: MAX_STEPS_def)

theorem run_step_bound_witness:
  "fst (run demo_env [] ''papers from IIT'') =
     Inr (projr (fst (run demo_env [] ''papers from IIT''))) \<and>
   tool_calls (snd (run demo_env [] ''papers from IIT'')) =
     res_steps_taken (projr (fst (run demo_env [] ''papers from IIT''))) \<and>
   decided_finish (fst (decide_action demo_env [] ''papers from IIT''
      [\<lparr>st_step = 1, st_thought = PStr [], st_action = PStr ''institution_search'',
        st_args = PDict [(''name'', PStr ''IIT'')], st_observation = ''Found 2 results:'',
        st_raw_results = PList []\<rparr>] (1 + 1))) \<and>
   run_loop demo_env ''papers from IIT'' (Suc 1) 1
      [\<lparr>st_step = 1, st_thought = PStr [], st_action = PStr ''institution_search'',
        st_args = PDict [(''name'', PStr ''IIT'')], st_observation = ''Found 2 results:'',
        st_raw_results = PList []\<rparr>] [] [] =
     (Inr (ViaFinish 1
        [\<lparr>st_step = 1, st_thought = PStr [], st_action = PStr ''institution_search'',
          st_args = PDict [(''name'', PStr ''IIT'')], st_observation = ''Found 2 results:'',
          st_raw_results = PList []\<rparr>] []), [])"
proof -
  let ?q = "''papers from IIT''"
  let ?chain = "[\<lparr>st_step = 1, st_thought = PStr [], st_action = PStr ''institution_search'',
        st_args = PDict [(''name'', PStr ''IIT'')], st_observation = ''Found 2 results:'',
        st_raw_results = PList []\<rparr>]"
  have r: "\<not> isl (fst (run demo_env [] ?q))" by code_simp
  then have r': "fst (run demo_env [] ?q) = Inr (projr (fst (run demo_env [] ?q)))" by simp
  have d: "decided_finish (fst (decide_action demo_env [] ?q ?chain (1 + 1)))" by code_simp
  have t: "snd (decide_action demo_env [] ?q ?chain (1 + 1)) = []" by code_simp
  have z: "tool_calls [] = 0" by (simp add: tool_calls_def)
  from run_step_bound [of demo_env "[]" ?q ?chain 1 1 "[]"] r' d t z
  show ?thesis by (simp del: One_nat_def)
qed

lemma run_loop_finish_decided:
  assumes "run_loop e q n step chain obs tr = (Inr (ViaFinish s c obs'), tr')"
  shows "\<exists>tr0. decided_finish (fst (decide_action e tr0 q c (s + 1))) \<and>
               tr' = snd (decide_action e tr0 q c (s + 1))"
  using assms
proof (induction n arbitrary: step chain obs tr)
  case 0
  then show ?case by simp
next
  case (Suc n)
  obtain dec tr1 where d: "decide_action e tr q chain (step + 1) = (dec, tr1)" by force
  show ?case
  proof (cases dec)
    case (PDict kvs)
    let ?name = "dict_get kvs ''tool'' (PStr ''keyword_search'')"
    let ?args = "dict_get kvs ''args'' (PDict [])"
    show ?thesis
    proof (cases "?name = PStr ''FINISH''")
      case True
      with Suc.prems d PDict have "s = step" "c = chain" "tr' = tr1" by (auto simp: Let_def)
      moreover have "decided_finish (fst (decide_action e tr q chain (step + 1)))"
        using d PDict True by (simp add: decided_finish_def)
      ultimately show ?thesis using d by (intro exI [of _ tr]) simp
    next
      case False
      obtain er tr2 where x: "execute_tool e tr1 ?name ?args = (er, tr2)" by force
      show ?thesis
      proof (cases er)
        case (Inl y)
        with Suc.prems d PDict x False show ?thesis by (auto simp: Let_def)
      next
        case (Inr observation)
        show ?thesis
        proof (cases "summarize_observation e observation")
          case (Inl y)
          with Suc.prems d PDict x False Inr show ?thesis by (auto simp: Let_def)
        next
          case sm: (Inr obs_summary)
          show ?thesis
          proof (cases "has_sufficient_results observation \<and> step \<ge> 1")
            case True
            with Suc.prems d PDict x False Inr sm show ?thesis by (auto simp: Let_def)
          next
            case nb: False
            let ?chain = "chain @ [\<lparr>st_step = step + 1, st_thought = dict_get kvs ''thought'' (PStr []),
                st_action = ?name, st_args = ?args, st_observation = obs_summary,
                st_raw_results = observation\<rparr>]"
            let ?obs = "obs @ [\<lparr>ob_tool = ?name, ob_args = ?args, ob_results = observation,
                ob_summary = obs_summary\<rparr>]"
            from Suc.prems d PDict x False Inr sm nb
            have "run_loop e q n (step + 1) ?chain ?obs tr2 = (Inr (ViaFinish s c obs'), tr')"
              by (auto simp: Let_def)
            from Suc.IH [OF this] show ?thesis .
          qed
        qed
      qed
    qed
  qed (use Suc.prems d in \<open>auto\<close>)
qed

text \<open>
  Claim C9. When the loop is left by the planner's \<open>FINISH\<close> decision, \<open>run\<close> returns a
  result whose success flag is true, whatever the answer text. When the loop is left at
  its end (the step bound is exhausted with no terminal decision, or the loop stops on
  sufficient results), the flag says that the answer is non-empty and its lower-cased
  text does not contain \<open>couldn't find\<close>. The loop is left by the first way only at a
  step where the planner decided \<open>FINISH\<close>.
\<close>

theorem success_flag:
  "(via_finish (fst (run_loop e question MAX_STEPS 0 [] [] tr)) \<longrightarrow>
      (\<exists>r. fst (run e tr question) = Inr r \<and> res_success r)) \<and>
   (via_loop_end (fst (run_loop e question MAX_STEPS 0 [] [] tr)) \<longrightarrow>
      (\<exists>r. fst (run e tr question) = Inr r \<and>
           res_success r =
             (res_answer r \<noteq> [] \<and> \<not> sublist ''couldn't find'' (py_lower (res_answer r))))) \<and>
   (\<forall>s c obs tr1. run_loop e question MAX_STEPS 0 [] [] tr = (Inr (ViaFinish s c obs), tr1) \<longrightarrow>
      (\<exists>tr0. decided_finish (fst (decide_action e tr0 question c (s + 1)))))"
proof (intro conjI impI allI)
  assume "via_finish (fst (run_loop e question MAX_STEPS 0 [] [] tr))"
  then obtain s c obs tr1 where
    "run_loop e question MAX_STEPS 0 [] [] tr = (Inr (ViaFinish s c obs), tr1)"
    by (metis via_finish.elims(2) prod.collapse)
  then show "\<exists>r. fst (run e tr question) = Inr r \<and> res_success r"
    by (simp add: run_def split: prod.splits)
next
  assume "via_loop_end (fst (run_loop e question MAX_STEPS 0 [] [] tr))"
  then obtain c obs tr1 where
    "run_loop e question MAX_STEPS 0 [] [] tr = (Inr (ViaLoopEnd c obs), tr1)"
    by (metis via_loop_end.elims(2) prod.collapse)
  then show "\<exists>r. fst (run e tr question) = Inr r \<and>
           res_success r =
             (res_answer r \<noteq> [] \<and> \<not> sublist ''couldn't find'' (py_lower (res_answer r)))"
    by (simp add: run_def contains_iff_sublist split: prod.splits)
next
  fix s c obs tr1
  assume "run_loop e question MAX_STEPS 0 [] [] tr = (Inr (ViaFinish s c obs), tr1)"
  from run_loop_finish_decided [OF this]
  show "\<exists>tr0. decided_finish (fst (decide_action e tr0 question c (s + 1)))" by blast
qed

theorem success_flag_witness:
  "via_finish (fst (run_loop demo_env ''papers from IIT'' MAX_STEPS 0 [] [] [])) \<and>
   (\<exists>r. fst (run demo_env [] ''papers from IIT'') = Inr r \<and> res_success r \<and>
        res_answer r = ''Sorry, I couldn't find matching papers.'') \<and>
   via_loop_end (fst (run_loop demo_env ''how many papers'' MAX_STEPS 0 [] [] [])) \<and>
   (\<exists>r. fst (run demo_env [] ''how many papers'') = Inr r \<and> \<not> res_success r \<and>
        sublist ''couldn't find'' (py_lower (res_answer r)))"
proof -
  have f: "via_finish (fst (run_loop demo_env ''papers from IIT'' MAX_STEPS 0 [] [] []))"
    by code_simp
  have l: "via_loop_end (fst (run_loop demo_env ''how many papers'' MAX_STEPS 0 [] [] []))"
    by code_simp
  have a1: "res_answer (projr (fst (run demo_env [] ''papers from IIT''))) =
      ''Sorry, I couldn't find matching papers.''"
    by code_simp
  have a2: "contains ''couldn't find''
      (py_lower (res_answer (projr (fst (run demo_env [] ''how many papers'')))))"
    by code_simp
  from success_flag [of demo_env "''papers from IIT''" "[]"] f
  obtain r1 where r1: "fst (run demo_env [] ''papers from IIT'') = Inr r1" "res_success r1"
    by blast
  from success_flag [of demo_env "''how many papers''" "[]"] l
  obtain r2 where r2: "fst (run demo_env [] ''how many papers'') = Inr r2"
    "res_success r2 =
       (res_answer r2 \<noteq> [] \<and> \<not> sublist ''couldn't find'' (py_lower (res_answer r2)))"
    by blast
  from r1 a1 have b1: "res_answer r1 = ''Sorry, I couldn't find matching papers.''" by simp
  from r2 a2 have b2: "sublist ''couldn't find'' (py_lower (res_answer r2))"
    by (simp add: contains_iff_sublist)
  from f l r1 r2 b1 b2 show ?thesis by blast
qed

lemma invoke_returns: "\<exists>v. fst (invoke e tr t a) = Inr v"
  by (auto simp: invoke_def handle_error_def split: sum.splits option.splits prod.splits)

lemma first_value_dict: "first_value (PDict kvs) = Inr (if kvs = [] then PStr [] else snd (hd kvs))"
  by (simp add: first_value_def)

lemma call_named_mismatch:
  "shape_mismatch t kvs \<Longrightarrow> call_named e tr t (PDict kvs) = (Inl TypeError, tr)"
  by (cases t) (auto simp: shape_mismatch_def call_named_def split: option.splits)

lemma map_of_single_key:
  "kvs \<noteq> [] \<Longrightarrow> \<forall>k \<in> set (map fst kvs). k = p \<Longrightarrow> map_of kvs p = Some (snd (hd kvs))"
  by (cases kvs) auto

lemma call_named_fits:
  assumes "\<not> shape_mismatch t kvs"
  shows "call_named e tr t (PDict kvs) = bound_call e tr t kvs"
proof (cases "param_name t")
  case None
  with assms show ?thesis by (simp add: shape_mismatch_def call_named_def bound_call_def)
next
  case (Some p)
  with assms have k: "\<forall>k \<in> set (map fst kvs). k = p" and d: "kvs = [] \<longrightarrow> t = KeywordSearch"
    by (auto simp: shape_mismatch_def)
  show ?thesis
  proof (cases "kvs = []")
    case True
    with Some d show ?thesis by (simp add: call_named_def bound_call_def)
  next
    case False
    from map_of_single_key [OF False k] Some k False show ?thesis
      by (simp add: call_named_def bound_call_def)
  qed
qed

lemma invoke_mismatch:
  assumes "shape_mismatch t kvs"
  shows "invoke e tr t (PDict kvs) =
           or_empty (call_positional e tr t (if kvs = [] then PStr [] else snd (hd kvs)))"
  using call_named_mismatch [OF assms, of e tr]
  by (simp add: invoke_def handle_error_def first_value_dict or_empty_def del: first_value_def
      split: prod.splits sum.splits)

lemma invoke_fits:
  assumes "\<not> shape_mismatch t kvs"
  shows "invoke e tr t (PDict kvs) =
           (case bound_call e tr t kvs of
              (Inr result, tr1) \<Rightarrow> (Inr result, tr1)
            | (Inl x, tr1) \<Rightarrow>
                (if x = TypeError
                 then or_empty (call_positional e tr1 t (if kvs = [] then PStr [] else snd (hd kvs)))
                 else (Inr (PList []), tr1)))"
  using call_named_fits [OF assms, of e tr]
  by (simp add: invoke_def handle_error_def first_value_dict or_empty_def
      split: prod.splits sum.splits)

lemma invoke_not_mapping:
  assumes "\<forall>kvs. a \<noteq> PDict kvs"
  shows "call_named e tr t a = (Inl TypeError, tr)"
    and "invoke e tr t a =
           (if truthy a then (Inr (PList []), tr) else or_empty (call_positional e tr t (PStr [])))"
proof -
  show c: "call_named e tr t a = (Inl TypeError, tr)"
    using assms by (cases a) (simp_all add: call_named_def)
  show "invoke e tr t a =
           (if truthy a then (Inr (PList []), tr) else or_empty (call_positional e tr t (PStr [])))"
    using assms c
    by (cases a) (simp_all add: invoke_def handle_error_def first_value_def or_empty_def
        split: prod.splits sum.splits)
qed

lemma execute_tool_unhashable:
  assumes "lookup_tool tool_name = Inl x"
  shows "execute_tool e tr tool_name tool_args = (Inr (PList []), tr @ [ToolExec tool_name tool_args])"
  using assms
  by (auto simp: execute_tool_def handle_error_def Let_def split: sum.splits)

text \<open>
  Claim C6. The executor always returns a value and never an exception. A name that is
  not in the registry is run as the keyword search, its query being the first value of
  the argument mapping, or the empty string for an empty mapping. A registered tool is
  called with the arguments by name. When the mapping does not fit the signature of the
  tool the call raises \<open>TypeError\<close> before the tool runs, and the tool is called once
  more, positionally, with the first argument value (the empty string for an empty
  mapping); a failure of that second call gives the empty list. When the mapping fits,
  the tool runs on its argument: its result is returned, a \<open>TypeError\<close> from it leads to
  the same single positional call, and any other exception gives the empty list at once.
  Arguments that are not a mapping raise \<open>TypeError\<close> too; the positional call is then
  made with the empty string when they are empty, and the empty list is returned when
  they are not. The positional call of \<open>get_statistics\<close> always fails. A name that cannot
  be looked up gives the empty list.
\<close>

theorem executor_isolates_failures:
  "(\<exists>v. fst (execute_tool e tr tool_name tool_args) = Inr v) \<and>
   (tools n = None \<longrightarrow>
      execute_tool e tr (PStr n) (PDict kvs) =
        invoke e (tr @ [ToolExec (PStr n) (PDict kvs)]) KeywordSearch
          (PDict [(''query'', if kvs = [] then PStr [] else snd (hd kvs))])) \<and>
   (tools n = Some t \<longrightarrow>
      execute_tool e tr (PStr n) tool_args =
        invoke e (tr @ [ToolExec (PStr n) tool_args]) t tool_args) \<and>
   (shape_mismatch t kvs \<longrightarrow>
      call_named e tr t (PDict kvs) = (Inl TypeError, tr) \<and>
      invoke e tr t (PDict kvs) =
        or_empty (call_positional e tr t (if kvs = [] then PStr [] else snd (hd kvs)))) \<and>
   (\<not> shape_mismatch t kvs \<longrightarrow>
      call_named e tr t (PDict kvs) = bound_call e tr t kvs \<and>
      invoke e tr t (PDict kvs) =
        (case bound_call e tr t kvs of
           (Inr result, tr1) \<Rightarrow> (Inr result, tr1)
         | (Inl x, tr1) \<Rightarrow>
             (if x = TypeError
              then or_empty (call_positional e tr1 t (if kvs = [] then PStr [] else snd (hd kvs)))
              else (Inr (PList []), tr1)))) \<and>
   ((\<forall>kvs. tool_args \<noteq> PDict kvs) \<longrightarrow>
      call_named e tr t tool_args = (Inl TypeError, tr) \<and>
      invoke e tr t tool_args =
        (if truthy tool_args then (Inr (PList []), tr)
         else or_empty (call_positional e tr t (PStr [])))) \<and>
   call_positional e tr t v =
     (if t = GetStatistics then (Inl TypeError, tr) else tool_body e tr t v) \<and>
   (lookup_tool tool_name = Inl x \<longrightarrow>
      execute_tool e tr tool_name tool_args =
        (Inr (PList []), tr @ [ToolExec tool_name tool_args]))"
proof (intro conjI impI)
  show "\<exists>v. fst (execute_tool e tr tool_name tool_args) = Inr v"
    by (rule execute_tool_returns)
next
  assume "tools n = None"
  then show "execute_tool e tr (PStr n) (PDict kvs) =
        invoke e (tr @ [ToolExec (PStr n) (PDict kvs)]) KeywordSearch
          (PDict [(''query'', if kvs = [] then PStr [] else snd (hd kvs))])"
    by (simp add: execute_tool_def lookup_tool_def first_value_def Let_def)
next
  assume "tools n = Some t"
  then show "execute_tool e tr (PStr n) tool_args =
        invoke e (tr @ [ToolExec (PStr n) tool_args]) t tool_args"
    by (simp add: execute_tool_def lookup_tool_def Let_def)
next
  assume "shape_mismatch t kvs"
  then show "call_named e tr t (PDict kvs) = (Inl TypeError, tr)"
    by (rule call_named_mismatch)
next
  assume "shape_mismatch t kvs"
  then show "invoke e tr t (PDict kvs) =
        or_empty (call_positional e tr t (if kvs = [] then PStr [] else snd (hd kvs)))"
    by (rule invoke_mismatch)
next
  assume "\<not> shape_mismatch t kvs"
  then show "call_named e tr t (PDict kvs) = bound_call e tr t kvs"
    by (rule call_named_fits)
next
  assume "\<not> shape_mismatch t kvs"
  then show "invoke e tr t (PDict kvs) =
        (case bound_call e tr t kvs of
           (Inr result, tr1) \<Rightarrow> (Inr result, tr1)
         | (Inl x, tr1) \<Rightarrow>
             (if x = TypeError
              then or_empty (call_positional e tr1 t (if kvs = [] then PStr [] else snd (hd kvs)))
              else (Inr (PList []), tr1)))"
    by (rule invoke_fits)
next
  assume "\<forall>kvs. tool_args \<noteq> PDict kvs"
  then show "call_named e tr t tool_args = (Inl TypeError, tr)"
    by (rule invoke_not_mapping(1))
next
  assume "\<forall>kvs. tool_args \<noteq> PDict kvs"
  then show "invoke e tr t tool_args =
        (if truthy tool_args then (Inr (PList []), tr)
         else or_empty (call_positional e tr t (PStr [])))"
    by (rule invoke_not_mapping(2))
next
  show "call_positional e tr t v =
     (if t = GetStatistics then (Inl TypeError, tr) else tool_body e tr t v)"
    by (cases t) (simp_all add: call_positional_def)
next
  assume "lookup_tool tool_name = Inl x"
  then show "execute_tool e tr tool_name tool_args =
        (Inr (PList []), tr @ [ToolExec tool_name tool_args])"
    by (rule execute_tool_unhashable)
qed


theorem executor_isolates_failures_witness:
  "execute_tool demo_env [] (PStr ''web_search'') (PDict [(''q'', PStr ''graph'')]) =
     (Inr (PList [PDict demo_row]),
      [ToolExec (PStr ''web_search'') (PDict [(''q'', PStr ''graph'')]),
       StoreQuery (KeywordQuery (PStr ''graph''))]) \<and>
   execute_tool demo_env [] (PStr ''author_search'') (PDict [(''author'', PStr ''Smith'')]) =
     (Inr (PList [PDict demo_row]),
      [ToolExec (PStr ''author_search'') (PDict [(''author'', PStr ''Smith'')]),
       StoreQuery (AuthorQuery (PStr ''Smith''))]) \<and>
   execute_tool demo_env [] (PStr ''get_statistics'') (PDict [(''x'', PInt 1)]) =
     (Inr (PList []), [ToolExec (PStr ''get_statistics'') (PDict [(''x'', PInt 1)])]) \<and>
   execute_tool demo_env [] (PStr ''topic_search'') (PDict [(''topic'', PStr ''NLP'')]) =
     (Inr (PList []),
      [ToolExec (PStr ''topic_search'') (PDict [(''topic'', PStr ''NLP'')]),
       StoreQuery (TopicQuery (PStr ''NLP''))]) \<and>
   execute_tool demo_env [] (PStr ''author_search'') (PDict [(''name'', PStr ''Smith'')]) =
     (Inr (PList [PDict demo_row]),
      [ToolExec (PStr ''author_search'') (PDict [(''name'', PStr ''Smith'')]),
       StoreQuery (AuthorQuery (PStr ''Smith''))]) \<and>
   execute_tool demo_env [] (PStr ''author_search'') (PStr ''Smith'') =
     (Inr (PList []), [ToolExec (PStr ''author_search'') (PStr ''Smith'')]) \<and>
   execute_tool demo_env [] (PList []) (PDict []) =
     (Inr (PList []), [ToolExec (PList []) (PDict [])])"
proof -
  note T = executor_isolates_failures [where e = demo_env]
  let ?t1 = "[ToolExec (PStr ''web_search'') (PDict [(''q'', PStr ''graph'')])]"
  have u: "tools ''web_search'' = None" by (simp add: tools_def)
  have k1: "\<not> shape_mismatch KeywordSearch [(''query'', PStr ''graph'')]"
    by (simp add: shape_mismatch_def)
  have k2: "bound_call demo_env ?t1 KeywordSearch [(''query'', PStr ''graph'')] =
              (Inr (PList [PDict demo_row]), ?t1 @ [StoreQuery (KeywordQuery (PStr ''graph''))])"
    by code_simp
  have 1: "execute_tool demo_env [] (PStr ''web_search'') (PDict [(''q'', PStr ''graph'')]) =
     (Inr (PList [PDict demo_row]), ?t1 @ [StoreQuery (KeywordQuery (PStr ''graph''))])"
    using T [where tr = "[]" and n = "''web_search''" and kvs = "[(''q'', PStr ''graph'')]"]
      T [where tr = ?t1 and t = KeywordSearch and kvs = "[(''query'', PStr ''graph'')]"] u k1 k2
    by simp
  let ?t2 = "[ToolExec (PStr ''author_search'') (PDict [(''author'', PStr ''Smith'')])]"
  have a: "tools ''author_search'' = Some AuthorSearch" by (simp add: tools_def)
  have m2: "shape_mismatch AuthorSearch [(''author'', PStr ''Smith'')]"
    by (simp add: shape_mismatch_def)
  have p2: "or_empty (tool_body demo_env ?t2 AuthorSearch (PStr ''Smith'')) =
              (Inr (PList [PDict demo_row]), ?t2 @ [StoreQuery (AuthorQuery (PStr ''Smith''))])"
    by code_simp
  have 2: "execute_tool demo_env [] (PStr ''author_search'') (PDict [(''author'', PStr ''Smith'')]) =
     (Inr (PList [PDict demo_row]), ?t2 @ [StoreQuery (AuthorQuery (PStr ''Smith''))])"
    using T [where tr = "[]" and n = "''author_search''" and t = AuthorSearch
               and tool_args = "PDict [(''author'', PStr ''Smith'')]"]
      T [where tr = ?t2 and t = AuthorSearch and kvs = "[(''author'', PStr ''Smith'')]"
           and v = "PStr ''Smith''"] a m2 p2
    by simp
  let ?t3 = "[ToolExec (PStr ''get_statistics'') (PDict [(''x'', PInt 1)])]"
  have s: "tools ''get_statistics'' = Some GetStatistics" by (simp add: tools_def)
  have m3: "shape_mismatch GetStatistics [(''x'', PInt 1)]"
    by (simp add: shape_mismatch_def)
  have 3: "execute_tool demo_env [] (PStr ''get_statistics'') (PDict [(''x'', PInt 1)]) =
     (Inr (PList []), ?t3)"
    using T [where tr = "[]" and n = "''get_statistics''" and t = GetStatistics
               and tool_args = "PDict [(''x'', PInt 1)]"]
      T [where tr = ?t3 and t = GetStatistics and kvs = "[(''x'', PInt 1)]" and v = "PInt 1"]
      s m3
    by (simp add: or_empty_def)
  let ?t4 = "[ToolExec (PStr ''topic_search'') (PDict [(''topic'', PStr ''NLP'')])]"
  have o: "tools ''topic_search'' = Some TopicSearch" by (simp add: tools_def)
  have k4: "\<not> shape_mismatch TopicSearch [(''topic'', PStr ''NLP'')]"
    by (simp add: shape_mismatch_def)
  have b4: "bound_call demo_env ?t4 TopicSearch [(''topic'', PStr ''NLP'')] =
              (Inl OtherError, ?t4 @ [StoreQuery (TopicQuery (PStr ''NLP''))])"
    by code_simp
  have 4: "execute_tool demo_env [] (PStr ''topic_search'') (PDict [(''topic'', PStr ''NLP'')]) =
     (Inr (PList []), ?t4 @ [StoreQuery (TopicQuery (PStr ''NLP''))])"
    using T [where tr = "[]" and n = "''topic_search''" and t = TopicSearch
               and tool_args = "PDict [(''topic'', PStr ''NLP'')]"]
      T [where tr = ?t4 and t = TopicSearch and kvs = "[(''topic'', PStr ''NLP'')]"] o k4 b4
    by simp
  let ?t5 = "[ToolExec (PStr ''author_search'') (PDict [(''name'', PStr ''Smith'')])]"
  have k5: "\<not> shape_mismatch AuthorSearch [(''name'', PStr ''Smith'')]"
    by (simp add: shape_mismatch_def)
  have b5: "bound_call demo_env ?t5 AuthorSearch [(''name'', PStr ''Smith'')] =
              (Inr (PList [PDict demo_row]), ?t5 @ [StoreQuery (AuthorQuery (PStr ''Smith''))])"
    by code_simp
  have 5: "execute_tool demo_env [] (PStr ''author_search'') (PDict [(''name'', PStr ''Smith'')]) =
     (Inr (PList [PDict demo_row]), ?t5 @ [StoreQuery (AuthorQuery (PStr ''Smith''))])"
    using T [where tr = "[]" and n = "''author_search''" and t = AuthorSearch
               and tool_args = "PDict [(''name'', PStr ''Smith'')]"]
      T [where tr = ?t5 and t = AuthorSearch and kvs = "[(''name'', PStr ''Smith'')]"] a k5 b5
    by simp
  let ?t6 = "[ToolExec (PStr ''author_search'') (PStr ''Smith'')]"
  have n6: "\<forall>kvs. PStr ''Smith'' \<noteq> PDict kvs" by simp
  have 6: "execute_tool demo_env [] (PStr ''author_search'') (PStr ''Smith'') = (Inr (PList []), ?t6)"
    using T [where tr = "[]" and n = "''author_search''" and t = AuthorSearch
               and tool_args = "PStr ''Smith''"]
      T [where tr = ?t6 and t = AuthorSearch and tool_args = "PStr ''Smith''"] a n6
    by simp
  have l7: "lookup_tool (PList []) = Inl TypeError" by (simp add: lookup_tool_def)
  have 7: "execute_tool demo_env [] (PList []) (PDict []) =
     (Inr (PList []), [ToolExec (PList []) (PDict [])])"
    using T [where tr = "[]" and tool_name = "PList []" and tool_args = "PDict []"
               and x = TypeError] l7
    by simp
  from 1 2 3 4 5 6 7 show ?thesis by simp
qed


















lemma parse_json_extract_json: "parse_json e text = extract_json e text"
  by (simp add: parse_json_def extract_json_def)

lemma parse_json_whole:
  "json_loads e (py_strip text) = Some v \<Longrightarrow> parse_json e text = v"
  by (simp add: parse_json_def)

lemma parse_json_none:
  assumes "json_loads e (py_strip text) = None"
    "\<And>g. fence_search (py_strip text) = Some g \<Longrightarrow> json_loads e (py_strip g) = None"
    "\<And>b. brace_search (py_strip text) = Some b \<Longrightarrow> json_loads e b = None"
  shows "parse_json e text = PNone"
proof -
  have f: "Option.bind (fence_search (py_strip text)) (\<lambda>g. json_loads e (py_strip g)) = None"
    using assms(2) by (cases "fence_search (py_strip text)") simp_all
  have b: "Option.bind (brace_search (py_strip text)) (json_loads e) = None"
    using assms(3) by (cases "brace_search (py_strip text)") simp_all
  show ?thesis using assms(1) f b by (simp add: parse_json_def)
qed

text \<open>
  Claim C5, at the input \<open>[1]\<close>. The first attempt decodes the text, and the parser
  returns what \<open>json.loads\<close> gave: a list, neither a mapping nor \<open>None\<close>. The planner
  hands this value on as its decision, and \<open>run\<close> raises \<open>AttributeError\<close> on it.
\<close>

theorem parse_json_returns_list:
  "parse_json demo_env ''[1]'' = PList [PInt 1] \<and>
   extract_json demo_env ''[1]'' = PList [PInt 1] \<and>
   fst (decide_action (demo_env\<lparr>llm := \<lambda>tr p. ''[1]''\<rparr>) [] ''deep learning'' [] 1) = PList [PInt 1] \<and>
   fst (run (demo_env\<lparr>llm := \<lambda>tr p. ''[1]''\<rparr>) [] ''deep learning'') = Inl AttributeError"
  by code_simp

lemma generate_cypher_retry:
  assumes "extract_json e (llm e tr (CypherPrompt q)) = PNone"
  shows "snd (generate_cypher e tr ''ollama'' q) =
           tr @ [LLMCall (CypherPrompt q), LLMCall (SimplePrompt q)]"
  using assms
  by (simp add: generate_cypher_def call_llm_def lacks_cypher_def Let_def
      split: sum.splits bool.splits)

lemma generate_cypher_number:
  assumes "extract_json e (llm e tr (CypherPrompt q)) = PInt n" "n \<noteq> 0"
  shows "generate_cypher e tr ''ollama'' q =
           (GenError (Caught TypeError), tr @ [LLMCall (CypherPrompt q)])"
  using assms
  by (simp add: generate_cypher_def call_llm_def lacks_cypher_def Let_def)

text \<open>
  Claim C7, at a first response \<open>42\<close>. The response decodes to a number, which has no
  query field; the membership test on it raises, the handler around the body returns
  the error result, and the events hold the one request: there is no retry with the
  simplified prompt.
\<close>

theorem generate_cypher_no_retry_on_number:
  "llm demo_env [] (CypherPrompt (PStr ''papers after 2020'')) = ''42'' \<and>
   extract_json demo_env ''42'' = PInt 42 \<and>
   generate_cypher demo_env [] ''ollama'' (PStr ''papers after 2020'') =
     (GenError (Caught TypeError), [LLMCall (CypherPrompt (PStr ''papers after 2020''))])"
  by code_simp

lemma early_finish_rule:
  assumes "step_number \<ge> 2" "thought_chain \<noteq> []"
    "sublist ''Found'' (st_observation (last thought_chain))"
    "\<not> sublist ''0 results'' (st_observation (last thought_chain))"
  shows "decide_action e tr question thought_chain step_number = (finish_decision, tr)"
  using assms by (simp add: decide_action_def Let_def contains_iff_sublist)

text \<open>
  Claim C8, after a step that found ten records. The summary of the step starts with
  \<open>Found 10 results:\<close>, which holds the text \<open>0 results\<close>; the shortcut does not fire,
  and the planner sends a request to the language model instead of deciding \<open>FINISH\<close>.
\<close>

theorem early_finish_misses_ten_results:
  "take 17 (st_observation (last demo_chain)) = ''Found 10 results:'' \<and>
   contains ''Found'' (st_observation (last demo_chain)) \<and>
   contains ''0 results'' (st_observation (last demo_chain)) \<and>
   decide_action demo_env [] ''most cited papers'' demo_chain 2 =
     (fallback_decision ''most cited papers'',
      [LLMCall (ActionPrompt ''most cited papers'' (history demo_chain) 2)]) \<and>
   \<not> decided_finish (fst (decide_action demo_env [] ''most cited papers'' demo_chain 2))"
proof -
  let ?q = "''most cited papers''"
  have a: "summarize_observation demo_env (PList (map PDict (replicate 10 demo_row))) =
             Inr demo_summary"
    by code_simp
  have o: "st_observation (last demo_chain) = demo_summary"
    using a by (simp add: demo_chain_def)
  have t: "take 17 demo_summary = ''Found 10 results:''" by code_simp
  have b: "contains ''Found'' demo_summary" by code_simp
  have c: "contains ''0 results'' demo_summary" by code_simp
  have ne: "demo_chain \<noteq> []" by (simp add: demo_chain_def)
  have p: "parse_json demo_env [] = PNone" by code_simp
  have l: "llm demo_env [] (ActionPrompt ?q (history demo_chain) 2) = []"
    by (simp add: demo_env_def)
  have d: "decide_action demo_env [] ?q demo_chain 2 =
     (fallback_decision ?q, [LLMCall (ActionPrompt ?q (history demo_chain) 2)])"
    unfolding decide_action_def Let_def call_llm_def
    by (simp add: o c p l ne)
  have f: "\<not> decided_finish (fallback_decision ?q)" by code_simp
  from o t b c d f show ?thesis by simp
qed

end
